theory Spec2Isabelle
  imports Complex_Main "HOL-Library.Multiset" "HOL-Library.Char_ord" "HOL-Library.List_Lexorder"
    "HOL-Library.AList" "HOL-Library.Signed_Division"
begin

section \<open>The TTL cache (package cache)\<close>

text \<open>
  Byte slices are lists of 8-bit characters; a nil slice is the empty list. Points in
  time are Unix nanoseconds (\<open>time.Now().UnixNano()\<close>) and durations are nanoseconds
  (\<open>time.Duration\<close>), both \<open>int64\<close> in the source. They are integers here: the clock
  stays between the years 1678 and 2262, where \<open>UnixNano\<close> does not overflow.
\<close>

type_synonym bytes = string

record Item =
  Value :: bytes
  Expiration :: int

text \<open>
  \<open>type Cache struct { mu; items map[string]Item; ttl time.Duration; log }\<close>.
  The lock and the logger carry no data. Every method runs under the lock, so a method
  is one atomic step from a cache to a cache; the clock reading of the method is its
  argument \<open>now\<close>.
\<close>

record Cache =
  items :: "string \<rightharpoonup> Item"
  ttl :: int

definition New_Cache :: "int \<Rightarrow> Cache" where
  "New_Cache d = \<lparr>items = Map.empty, ttl = d\<rparr>"

text \<open>
  \<open>Get\<close> takes the read lock, looks the key up and compares the clock with the item's
  expiration. It returns the pair of the source and the cache it leaves behind.
\<close>

definition Cache_Get :: "Cache \<Rightarrow> int \<Rightarrow> string \<Rightarrow> (bytes \<times> bool) \<times> Cache" where
  "Cache_Get c now key =
     (case items c key of
        None \<Rightarrow> (([], False), c)
      | Some item \<Rightarrow>
          if now > Expiration item then (([], False), c)
          else ((Value item, True), c))"

definition Cache_Set :: "Cache \<Rightarrow> int \<Rightarrow> string \<Rightarrow> bytes \<Rightarrow> Cache" where
  "Cache_Set c now key v =
     c\<lparr>items := (items c)(key \<mapsto> \<lparr>Value = v, Expiration = now + ttl c\<rparr>)\<rparr>"

definition Cache_Delete :: "Cache \<Rightarrow> string \<Rightarrow> Cache" where
  "Cache_Delete c key = c\<lparr>items := (items c)(key := None)\<rparr>"

text \<open>
  \<open>cleanup\<close> ranges over the map and deletes every item with \<open>now > v.Expiration\<close>;
  deleting during a range is allowed in Go and every key is visited.
\<close>

definition cleanup :: "Cache \<Rightarrow> int \<Rightarrow> Cache" where
  "cleanup c now =
     c\<lparr>items := (\<lambda>k. case items c k of
                         None \<Rightarrow> None
                       | Some v \<Rightarrow> if now > Expiration v then None else Some v)\<rparr>"

definition Cache_TTL :: "Cache \<Rightarrow> int" where
  "Cache_TTL c = ttl c"

section \<open>Library types used by the proxy\<close>

subsection \<open>url.Values and http.Header\<close>

text \<open>
  Both are \<open>map[string][]string\<close>. A Go map is modelled as an association list with
  distinct keys; the order of the list stands for the unspecified iteration order of
  the map. \<open>Values_Get\<close> is \<open>url.Values.Get\<close> (the first value of the key, or the
  empty string), \<open>Values_Set\<close> is \<open>Set\<close> (the key gets the one-element list) and
  \<open>Values_Add\<close> is \<open>Add\<close> (append to the key's list).
\<close>

type_synonym Values = "(string \<times> string list) list"

definition Values_lookup :: "Values \<Rightarrow> string \<Rightarrow> string list" where
  "Values_lookup v key = (case map_of v key of None \<Rightarrow> [] | Some vs \<Rightarrow> vs)"

definition Values_Get :: "Values \<Rightarrow> string \<Rightarrow> string" where
  "Values_Get v key = (case Values_lookup v key of [] \<Rightarrow> [] | x # _ \<Rightarrow> x)"

definition Values_Set :: "Values \<Rightarrow> string \<Rightarrow> string \<Rightarrow> Values" where
  "Values_Set v key val = AList.update key [val] v"

definition Values_Add :: "Values \<Rightarrow> string \<Rightarrow> string \<Rightarrow> Values" where
  "Values_Add v key val = AList.update key (Values_lookup v key @ [val]) v"

subsection \<open>int64 arithmetic\<close>

text \<open>
  \<open>int64\<close> values are integers in \<open>[-2^63, 2^63)\<close>; \<open>+\<close>, \<open>-\<close> and \<open>*\<close> wrap
  around and \<open>/\<close> truncates towards zero (\<open>sdiv\<close>).
\<close>

definition wrap64 :: "int \<Rightarrow> int" where
  "wrap64 x = (x + 2 ^ 63) mod 2 ^ 64 - 2 ^ 63"

definition add64 :: "int \<Rightarrow> int \<Rightarrow> int" where
  "add64 a b = wrap64 (a + b)"

definition sub64 :: "int \<Rightarrow> int \<Rightarrow> int" where
  "sub64 a b = wrap64 (a - b)"

definition mul64 :: "int \<Rightarrow> int \<Rightarrow> int" where
  "mul64 a b = wrap64 (a * b)"

definition div64 :: "int \<Rightarrow> int \<Rightarrow> int" where
  "div64 a b = wrap64 (a sdiv b)"

subsection \<open>float64 and strconv\<close>

text \<open>
  A \<open>float64\<close> is a rational number, or one of the infinities or a NaN. The conversion
  \<open>int64(f)\<close> discards the fraction (truncation towards zero). For a value outside the
  range of \<open>int64\<close>, an infinity or a NaN the Go specification leaves the result to the
  implementation; the model takes the amd64 result, the smallest \<open>int64\<close>.
\<close>

datatype float64 = Finite rat | NonFinite

definition trunc :: "rat \<Rightarrow> int" where
  "trunc q = (if 0 \<le> q then \<lfloor>q\<rfloor> else \<lceil>q\<rceil>)"

definition int64_of_float64 :: "float64 \<Rightarrow> int" where
  "int64_of_float64 f =
     (case f of
        Finite q \<Rightarrow>
          if - (2 ^ 63) \<le> trunc q \<and> trunc q < 2 ^ 63 then trunc q else - (2 ^ 63)
      | NonFinite \<Rightarrow> - (2 ^ 63))"

text \<open>
  \<open>time.Duration.Seconds\<close> returns the duration (nanoseconds) as a floating-point
  number of seconds. The quotient is taken exactly here; the source adds the whole
  seconds and the rounded fraction in \<open>float64\<close>, which has the same integer part for
  every duration below \<open>2^22\<close> seconds (48 days).
\<close>

definition Seconds :: "int \<Rightarrow> float64" where
  "Seconds d = Finite (of_int d / 1000000000)"

text \<open>\<open>strconv.FormatInt(i, 10)\<close>: the decimal numeral of \<open>i\<close>, with a minus sign if negative.\<close>

fun formatBits :: "nat \<Rightarrow> string" where
  "formatBits n =
     (if n < 10 then [''0123456789'' ! n]
      else formatBits (n div 10) @ [''0123456789'' ! (n mod 10)])"

definition FormatInt :: "int \<Rightarrow> string" where
  "FormatInt i = (if i < 0 then CHR ''-'' # formatBits (nat (- i)) else formatBits (nat i))"

text \<open>
  \<open>strconv.ParseFloat(s, 64)\<close> is library code: the functions below take it as the
  argument \<open>pf\<close>, with \<open>pf s = None\<close> when it returns an error and \<open>Some f\<close> when it
  returns the value \<open>f\<close>. \<open>ParseFloat_decimal\<close> is its restriction to numerals of the
  form sign, digits, point, digits whose value is a \<open>float64\<close> (every whole number below
  \<open>2^53\<close>, every such number plus a half, ...); it serves to evaluate examples and is
  not meant for other strings.
\<close>

definition isDigit :: "char \<Rightarrow> bool" where
  "isDigit c \<longleftrightarrow> CHR ''0'' \<le> c \<and> c \<le> CHR ''9''"

fun readDigits :: "nat \<Rightarrow> string \<Rightarrow> nat" where
  "readDigits acc [] = acc"
| "readDigits acc (c # cs) = readDigits (10 * acc + (of_char c - 48)) cs"

definition ParseFloat_decimal :: "string \<Rightarrow> float64 option" where
  "ParseFloat_decimal s =
     (let neg = (case s of [] \<Rightarrow> False | c # _ \<Rightarrow> c = CHR ''-'');
          signed = (case s of [] \<Rightarrow> False | c # _ \<Rightarrow> c = CHR ''-'' \<or> c = CHR ''+'');
          body = (if signed then tl s else s);
          ip = takeWhile (\<lambda>c. c \<noteq> CHR ''.'') body;
          fp = drop (Suc (length ip)) body
      in if (ip = [] \<and> fp = []) \<or> \<not> list_all isDigit ip \<or> \<not> list_all isDigit fp then None
         else Some (Finite ((if neg then - 1 else 1) *
                (of_nat (readDigits 0 ip) + of_nat (readDigits 0 fp) / 10 ^ length fp))))"

section \<open>The caching proxy (package proxy)\<close>

text \<open>
  The part of \<open>*http.Request\<close> the key depends on: the method, \<open>URL.Path\<close> and the
  query. \<open>QueryPairs\<close> is the list of decoded name-value pairs of \<open>URL.RawQuery\<close> in
  the order they are written; \<open>URL_Query\<close> is \<open>r.URL.Query()\<close>, which adds them to an
  empty \<open>url.Values\<close> one after the other.
\<close>

record Request =
  Method :: string
  Path :: string
  QueryPairs :: "(string \<times> string) list"

definition URL_Query :: "Request \<Rightarrow> Values" where
  "URL_Query r = foldl (\<lambda>v (key, val). Values_Add v key val) [] (QueryPairs r)"

text \<open>
  \<open>HTTPCacheProxy\<close>: the cache and the TTL copied from it by \<open>New\<close>. The upstream URL,
  the HTTP client and the logger are outside the model.
\<close>

record HTTPCacheProxy =
  cache :: Cache
  cacheTTL :: int

definition New_Proxy :: "Cache \<Rightarrow> HTTPCacheProxy" where
  "New_Proxy c = \<lparr>cache = c, cacheTTL = Cache_TTL c\<rparr>"

text \<open>
  \<open>normalizeQueryString\<close>. The outer loop runs over the sorted keys with index \<open>i\<close>,
  the inner loop over the sorted values of the key with index \<open>j\<close>; an ampersand is
  written before every pair but the one with \<open>i = 0\<close> and \<open>j = 0\<close>. \<open>sort.Strings\<close>
  orders strings bytewise, as the lexicographic order on character lists does.
\<close>

fun writeValues :: "nat \<Rightarrow> string \<Rightarrow> nat \<Rightarrow> string list \<Rightarrow> string" where
  "writeValues i k j [] = []"
| "writeValues i k j (v # vs) =
     (if i > 0 \<or> j > 0 then ''&'' else []) @ k @ ''='' @ v @ writeValues i k (Suc j) vs"

fun writeKeys :: "Values \<Rightarrow> nat \<Rightarrow> string list \<Rightarrow> string" where
  "writeKeys query i [] = []"
| "writeKeys query i (k # ks) =
     writeValues i k 0 (sort (Values_lookup query k)) @ writeKeys query (Suc i) ks"

definition normalizeQueryString :: "Values \<Rightarrow> string" where
  "normalizeQueryString query =
     (if length query = 0 then []
      else writeKeys query 0 (sort (map fst query)))"

text \<open>
  \<open>roundTimeParameter\<close>. The map is updated in place in the source; the model returns
  the updated map.
\<close>

definition roundTimeParameter ::
  "(string \<Rightarrow> float64 option) \<Rightarrow> Values \<Rightarrow> string \<Rightarrow> int \<Rightarrow> bool \<Rightarrow> Values" where
  "roundTimeParameter pf query paramName ttlSeconds roundUp =
     (let paramStr = Values_Get query paramName in
      if paramStr \<noteq> [] then
        (case pf paramStr of
           None \<Rightarrow> query
         | Some paramTime \<Rightarrow>
             let roundedTime =
               (if roundUp then
                  mul64 (div64 (sub64 (add64 (int64_of_float64 paramTime) ttlSeconds) 1)
                           ttlSeconds) ttlSeconds
                else mul64 (div64 (int64_of_float64 paramTime) ttlSeconds) ttlSeconds)
             in Values_Set query paramName (FormatInt roundedTime))
      else query)"

text \<open>
  \<open>generateCacheKey\<close>. \<open>roundTimeParameters\<close> is the block of it that copies the query
  and rounds the three time parameters; the copy is the value itself here.
\<close>

definition ttlSeconds_of :: "HTTPCacheProxy \<Rightarrow> int" where
  "ttlSeconds_of p = int64_of_float64 (Seconds (cacheTTL p))"

definition roundTimeParameters ::
  "(string \<Rightarrow> float64 option) \<Rightarrow> HTTPCacheProxy \<Rightarrow> Request \<Rightarrow> Values" where
  "roundTimeParameters pf p r =
     (let query = URL_Query r;
          ttlSeconds = ttlSeconds_of p
      in if ttlSeconds > 0 then
           roundTimeParameter pf
             (roundTimeParameter pf
                (roundTimeParameter pf query ''time'' ttlSeconds False)
                ''start'' ttlSeconds False)
             ''end'' ttlSeconds True
         else query)"

definition generateCacheKey ::
  "(string \<Rightarrow> float64 option) \<Rightarrow> HTTPCacheProxy \<Rightarrow> Request \<Rightarrow> string" where
  "generateCacheKey pf p r =
     Method r @ '':'' @ Path r @ '':'' @ normalizeQueryString (roundTimeParameters pf p r)"

subsection \<open>The request handler\<close>

text \<open>
  \<open>skipCacheHeaders\<close>, and \<open>strings.EqualFold\<close> on header names. Header names are
  tokens, hence ASCII, and on ASCII strings \<open>EqualFold\<close> compares the strings with
  the letters \<open>A\<close> to \<open>Z\<close> turned to lower case.
\<close>

definition skipCacheHeaders :: "string list" where
  "skipCacheHeaders = [''Date'', ''Connection'', ''Transfer-Encoding'', ''Keep-Alive'']"

definition toLower :: "char \<Rightarrow> char" where
  "toLower c =
     (if CHR ''A'' \<le> c \<and> c \<le> CHR ''Z''
      then ''abcdefghijklmnopqrstuvwxyz'' ! (of_char c - 65) else c)"

definition EqualFold :: "string \<Rightarrow> string \<Rightarrow> bool" where
  "EqualFold s t \<longleftrightarrow> map toLower s = map toLower t"

text \<open>
  \<open>Response\<close> is the cached response. \<open>json.Marshal\<close> and \<open>json.Unmarshal\<close> are
  library code and are arguments of the functions below: \<open>marshal\<close> gives the encoding
  or \<open>None\<close> for an error, \<open>unmarshal\<close> gives the decoded response or \<open>None\<close> for an
  error.
\<close>

record Response =
  Headers :: Values
  StatusCode :: int
  Body :: bytes

text \<open>
  The upstream \<open>*http.Response\<close>: its header and status code. The outcome of
  \<open>prepareUpstreamRequest\<close>, \<open>client.Do\<close> and \<open>io.ReadAll\<close> is the input
  \<open>upstream\<close> of the handler: a failure to prepare the request, a transport error, a
  response whose body cannot be read, or a response with its body.
\<close>

record http_Response =
  resp_Header :: Values
  resp_StatusCode :: int

datatype upstream =
    PrepareError
  | TransportError
  | ReadError http_Response
  | Upstream http_Response bytes

text \<open>
  What the handler writes to its \<open>http.ResponseWriter\<close>: the header map, the status
  code once \<open>WriteHeader\<close> is called, and the body written so far. Header names are
  in canonical form (as they are in \<open>resp.Header\<close>, and as \<open>X-Cache\<close> is), so the
  canonicalisation of \<open>Header.Add\<close> and \<open>Header.Set\<close> changes nothing.
\<close>

record ResponseWriter =
  w_Header :: Values
  w_Status :: "int option"
  w_Body :: bytes

definition emptyWriter :: ResponseWriter where
  "emptyWriter = \<lparr>w_Header = [], w_Status = None, w_Body = []\<rparr>"

definition WriteHeader :: "ResponseWriter \<Rightarrow> int \<Rightarrow> ResponseWriter" where
  "WriteHeader w code = (case w_Status w of None \<Rightarrow> w\<lparr>w_Status := Some code\<rparr> | Some _ \<Rightarrow> w)"

definition Write :: "ResponseWriter \<Rightarrow> bytes \<Rightarrow> ResponseWriter" where
  "Write w b = (let w = WriteHeader w 200 in w\<lparr>w_Body := w_Body w @ b\<rparr>)"

text \<open>
  \<open>http.Error\<close>: it removes \<open>Content-Length\<close>, sets the content type and the
  no-sniff header, writes the status code and the message followed by a newline.
\<close>

definition http_Error :: "ResponseWriter \<Rightarrow> string \<Rightarrow> int \<Rightarrow> ResponseWriter" where
  "http_Error w msg code =
     (let h = AList.delete ''Content-Length'' (w_Header w);
          h = Values_Set h ''Content-Type'' ''text/plain; charset=utf-8'';
          h = Values_Set h ''X-Content-Type-Options'' ''nosniff'';
          w = WriteHeader (w\<lparr>w_Header := h\<rparr>) code
      in Write w (msg @ [CHR 0x0A]))"

text \<open>
  The loop \<open>for name, values := range h { for _, value := range values {
  w.Header().Add(name, value) } }\<close> of \<open>tryServeCachedResponse\<close> and
  \<open>writeResponse\<close>.
\<close>

definition addHeaders :: "ResponseWriter \<Rightarrow> Values \<Rightarrow> ResponseWriter" where
  "addHeaders w h =
     w\<lparr>w_Header :=
         foldl (\<lambda>m (name, values). foldl (\<lambda>m val. Values_Add m name val) m values)
           (w_Header w) h\<rparr>"

definition setHeader :: "ResponseWriter \<Rightarrow> string \<Rightarrow> string \<Rightarrow> ResponseWriter" where
  "setHeader w name val = w\<lparr>w_Header := Values_Set (w_Header w) name val\<rparr>"

text \<open>
  \<open>tryServeCachedResponse\<close> returns its result, the writer and the proxy (whose cache
  \<open>Get\<close> has read).
\<close>

definition tryServeCachedResponse ::
  "(bytes \<Rightarrow> Response option) \<Rightarrow> HTTPCacheProxy \<Rightarrow> int \<Rightarrow> ResponseWriter \<Rightarrow> Request \<Rightarrow>
     string \<Rightarrow> bool \<times> ResponseWriter \<times> HTTPCacheProxy" where
  "tryServeCachedResponse unmarshal p now w r cacheKey =
     (case Cache_Get (cache p) now cacheKey of
        ((data, found), c) \<Rightarrow>
          let p = p\<lparr>cache := c\<rparr> in
          if \<not> found then (False, w, p)
          else
            (case unmarshal data of
               None \<Rightarrow> (False, w, p)
             | Some cachedResp \<Rightarrow>
                 let w = addHeaders w (Headers cachedResp);
                     w = setHeader w ''X-Cache'' ''HIT'';
                     w = WriteHeader w (StatusCode cachedResp);
                     w = Write w (Body cachedResp)
                 in (True, w, p)))"

definition shouldSkip :: "string \<Rightarrow> bool" where
  "shouldSkip name = list_ex (\<lambda>skipHeader. EqualFold name skipHeader) skipCacheHeaders"

text \<open>
  \<open>cacheResponse\<close>. \<open>newCachedResponse\<close> is its first part, which builds
  \<open>cachedResp\<close>: the status code, the body and the headers of the upstream response
  except those to skip. The second part encodes \<open>cachedResp\<close> and stores it.
\<close>

definition newCachedResponse :: "http_Response \<Rightarrow> bytes \<Rightarrow> Response" where
  "newCachedResponse resp body =
     \<lparr>Headers = filter (\<lambda>(name, values). \<not> shouldSkip name) (resp_Header resp),
      StatusCode = resp_StatusCode resp,
      Body = body\<rparr>"

definition cacheResponse ::
  "(Response \<Rightarrow> bytes option) \<Rightarrow> HTTPCacheProxy \<Rightarrow> int \<Rightarrow> string \<Rightarrow> http_Response \<Rightarrow> bytes \<Rightarrow>
     HTTPCacheProxy" where
  "cacheResponse marshal p now cacheKey resp body =
     (let cachedResp = newCachedResponse resp body
      in case marshal cachedResp of
           None \<Rightarrow> p
         | Some cachedData \<Rightarrow> p\<lparr>cache := Cache_Set (cache p) now cacheKey cachedData\<rparr>)"

definition writeResponse :: "ResponseWriter \<Rightarrow> http_Response \<Rightarrow> bytes \<Rightarrow> ResponseWriter" where
  "writeResponse w resp body =
     (let w = addHeaders w (resp_Header resp);
          w = setHeader w ''X-Cache'' ''MISS'';
          w = WriteHeader w (resp_StatusCode resp)
      in Write w body)"

text \<open>
  \<open>forwardRequest\<close>. The status codes are \<open>http.StatusInternalServerError = 500\<close>,
  \<open>http.StatusBadGateway = 502\<close> and \<open>http.StatusOK = 200\<close>. \<open>now\<close> is the clock
  when the response is stored.
\<close>

definition forwardRequest ::
  "(Response \<Rightarrow> bytes option) \<Rightarrow> HTTPCacheProxy \<Rightarrow> int \<Rightarrow> ResponseWriter \<Rightarrow> Request \<Rightarrow>
     string \<Rightarrow> bool \<Rightarrow> upstream \<Rightarrow> ResponseWriter \<times> HTTPCacheProxy" where
  "forwardRequest marshal p now w r cacheKey isCacheable up =
     (case up of
        PrepareError \<Rightarrow> (http_Error w ''Internal server error'' 500, p)
      | TransportError \<Rightarrow> (http_Error w ''Failed to reach upstream server'' 502, p)
      | ReadError resp \<Rightarrow> (http_Error w ''Failed to read upstream response'' 500, p)
      | Upstream resp respBody \<Rightarrow>
          let p = (if isCacheable \<and> resp_StatusCode resp = 200
                   then cacheResponse marshal p now cacheKey resp respBody else p)
          in (writeResponse w resp respBody, p))"

text \<open>
  \<open>HandleRequest\<close>. \<open>now\<close> is the clock at the lookup and \<open>later\<close> the clock when
  the upstream response is stored; the upstream outcome \<open>up\<close> is only consulted when
  the request is forwarded.
\<close>

definition HandleRequest ::
  "(string \<Rightarrow> float64 option) \<Rightarrow> (Response \<Rightarrow> bytes option) \<Rightarrow> (bytes \<Rightarrow> Response option) \<Rightarrow>
     HTTPCacheProxy \<Rightarrow> int \<Rightarrow> int \<Rightarrow> ResponseWriter \<Rightarrow> Request \<Rightarrow> upstream \<Rightarrow>
     ResponseWriter \<times> HTTPCacheProxy" where
  "HandleRequest pf marshal unmarshal p now later w r up =
     (let isCacheable = (Method r = ''GET'');
          cacheKey = generateCacheKey pf p r
      in if isCacheable then
           (case tryServeCachedResponse unmarshal p now w r cacheKey of
              (True, w', p') \<Rightarrow> (w', p')
            | (False, w', p') \<Rightarrow> forwardRequest marshal p' later w' r cacheKey isCacheable up)
         else forwardRequest marshal p later w r cacheKey isCacheable up)"

section \<open>Reference definitions and example data\<close>

text \<open>
  The two bucketing formulas in the words of the specification:
  \<open>floor(value / ttlSeconds) * ttlSeconds\<close> and \<open>ceil(value / ttlSeconds) * ttlSeconds\<close>,
  on the exact value of the parameter.
\<close>

definition spec_round_down :: "rat \<Rightarrow> int \<Rightarrow> int" where
  "spec_round_down v t = \<lfloor>v / of_int t\<rfloor> * t"

definition spec_round_up :: "rat \<Rightarrow> int \<Rightarrow> int" where
  "spec_round_up v t = \<lceil>v / of_int t\<rceil> * t"

text \<open>
  A case-insensitive match in the words of the specification: two names match when
  they have the same length and, position by position, the same character or the
  upper-case and the lower-case form of one letter (which are 32 apart).
\<close>

definition isUpper :: "char \<Rightarrow> bool" where
  "isUpper c \<longleftrightarrow> CHR ''A'' \<le> c \<and> c \<le> CHR ''Z''"

definition same_letter :: "char \<Rightarrow> char \<Rightarrow> bool" where
  "same_letter c d \<longleftrightarrow>
     c = d \<or> (isUpper c \<and> (of_char d :: nat) = of_char c + 32)
           \<or> (isUpper d \<and> (of_char c :: nat) = of_char d + 32)"

definition equal_ignoring_case :: "string \<Rightarrow> string \<Rightarrow> bool" where
  "equal_ignoring_case s t \<longleftrightarrow> list_all2 same_letter s t"

text \<open>A proxy with the default TTL of five minutes.\<close>

definition proxy300 :: HTTPCacheProxy where
  "proxy300 = New_Proxy (New_Cache 300000000000)"

definition range_request :: Request where
  "range_request = \<lparr>Method = ''GET'', Path = ''/api/v1/query_range'',
     QueryPairs = [(''start'', ''1000''), (''end'', ''1000''), (''time'', ''950'')]\<rparr>"

text \<open>
  The key in closed form. \<open>key_pairs\<close> lists the name-value pairs of a query in the
  order \<open>normalizeQueryString\<close> writes them, \<open>render_pair\<close> writes one pair and
  \<open>join_amp\<close> is \<open>strings.Join(xs, "&")\<close>; \<open>amp_all\<close> writes every pair with an
  ampersand in front. \<open>values_of k ps\<close> are the values paired with the name \<open>k\<close> in a
  list of pairs, in their order.
\<close>

definition render_pair :: "string \<times> string \<Rightarrow> string" where
  "render_pair kv = fst kv @ ''='' @ snd kv"

fun join_amp :: "string list \<Rightarrow> string" where
  "join_amp [] = []"
| "join_amp [x] = x"
| "join_amp (x # y # ys) = x @ ''&'' @ join_amp (y # ys)"

definition amp_all :: "(string \<times> string) list \<Rightarrow> string" where
  "amp_all ps = concat (map (\<lambda>p. ''&'' @ render_pair p) ps)"

definition key_pairs :: "Values \<Rightarrow> (string \<times> string) list" where
  "key_pairs q = concat (map (\<lambda>k. map (Pair k) (sort (Values_lookup q k))) (sort (map fst q)))"

definition values_of :: "string \<Rightarrow> (string \<times> string) list \<Rightarrow> string list" where
  "values_of k ps = map snd (filter (\<lambda>p. fst p = k) ps)"

text \<open>
  A map built by \<open>Add\<close> and \<open>Set\<close> has distinct keys and no key with an empty list of
  values. Two maps have the same view when they have the same keys and every key has
  the same values up to their order.
\<close>

definition wf_Values :: "Values \<Rightarrow> bool" where
  "wf_Values q \<longleftrightarrow> distinct (map fst q) \<and> (\<forall>k \<in> fst ` set q. Values_lookup q k \<noteq> [])"

definition same_view :: "Values \<Rightarrow> Values \<Rightarrow> bool" where
  "same_view q1 q2 \<longleftrightarrow>
     fst ` set q1 = fst ` set q2 \<and> (\<forall>k. mset (Values_lookup q1 k) = mset (Values_lookup q2 k))"

text \<open>
  A parameter is bucketed when \<open>roundTimeParameter\<close> rewrites it: it is one of the three
  time parameters, the TTL has a whole second, and its first value is not empty and
  parses.
\<close>

definition bucketed :: "(string \<Rightarrow> float64 option) \<Rightarrow> HTTPCacheProxy \<Rightarrow> Request \<Rightarrow> string \<Rightarrow> bool" where
  "bucketed pf p r k \<longleftrightarrow>
     k \<in> {''time'', ''start'', ''end''} \<and> ttlSeconds_of p > 0 \<and>
     Values_Get (URL_Query r) k \<noteq> [] \<and> pf (Values_Get (URL_Query r) k) \<noteq> None"

text \<open>Example requests.\<close>

definition series_request :: Request where
  "series_request = \<lparr>Method = ''GET'', Path = ''/api/v1/series'',
     QueryPairs = [(''match[]'', ''up''), (''match[]'', ''node''),
                   (''start'', ''1000''), (''start'', ''2000'')]\<rparr>"

definition series_request_swapped :: Request where
  "series_request_swapped = \<lparr>Method = ''GET'', Path = ''/api/v1/series'',
     QueryPairs = [(''start'', ''2000''), (''match[]'', ''node''),
                   (''start'', ''1000''), (''match[]'', ''up'')]\<rparr>"

definition ab_request :: Request where
  "ab_request = \<lparr>Method = ''GET'', Path = ''/api/v1/query'', QueryPairs = [(''a'', ''1''), (''b'', ''2'')]\<rparr>"

definition ba_request :: Request where
  "ba_request = \<lparr>Method = ''GET'', Path = ''/api/v1/query'', QueryPairs = [(''b'', ''2''), (''a'', ''1'')]\<rparr>"

text \<open>
  A toy codec for the examples (the theorems hold for every codec): the encoding of a
  response is an opening brace followed by its body, and only such an encoding decodes.
\<close>

definition example_marshal :: "Response \<Rightarrow> bytes option" where
  "example_marshal resp = Some (CHR ''{'' # Body resp)"

definition example_unmarshal :: "bytes \<Rightarrow> Response option" where
  "example_unmarshal data =
     (case data of
        [] \<Rightarrow> None
      | c # b \<Rightarrow> if c = CHR ''{'' then Some \<lparr>Headers = [], StatusCode = 200, Body = b\<rparr> else None)"

definition query_request :: Request where
  "query_request = \<lparr>Method = ''GET'', Path = ''/api/v1/query'', QueryPairs = [(''query'', ''up'')]\<rparr>"

definition post_request :: Request where
  "post_request = \<lparr>Method = ''POST'', Path = ''/api/v1/query'', QueryPairs = [(''query'', ''up'')]\<rparr>"

definition upstream_ok :: http_Response where
  "upstream_ok =
     \<lparr>resp_Header = [(''Date'', [''Mon, 02 Jan 2006 15:04:05 GMT'']),
                     (''Content-Type'', [''application/json'']),
                     (''Keep-Alive'', [''timeout=5''])],
      resp_StatusCode = 200\<rparr>"

text \<open>An upstream response whose header names are written in other cases.\<close>

definition upstream_mixed_case :: http_Response where
  "upstream_mixed_case =
     \<lparr>resp_Header = [(''date'', [''Mon'']), (''Content-Type'', [''application/json'']),
                     (''KEEP-ALIVE'', [''timeout=5'']), (''connection'', [''close'']),
                     (''Transfer-encoding'', [''chunked''])],
      resp_StatusCode = 200\<rparr>"

definition upstream_unavailable :: http_Response where
  "upstream_unavailable =
     \<lparr>resp_Header = [(''Content-Type'', [''text/plain''])], resp_StatusCode = 503\<rparr>"

text \<open>A proxy whose cache holds an undecodable entry under the key of \<open>query_request\<close>.\<close>

definition proxy_corrupt :: HTTPCacheProxy where
  "proxy_corrupt =
     New_Proxy (Cache_Set (New_Cache 300000000000) 0 ''GET:/api/v1/query:query=up'' ''garbage'')"

text \<open>Two requests with different queries: one parameter with an ampersand in its value, and two parameters.\<close>

definition one_parameter_request :: Request where
  "one_parameter_request =
     \<lparr>Method = ''GET'', Path = ''/api/v1/query'', QueryPairs = [(''query'', ''up&x=1'')]\<rparr>"

definition two_parameter_request :: Request where
  "two_parameter_request =
     \<lparr>Method = ''GET'', Path = ''/api/v1/query'', QueryPairs = [(''query'', ''up''), (''x'', ''1'')]\<rparr>"

section \<open>Properties of the cache\<close>

text \<open>
  Claim C3. For every key, Get returns the stored value together with found = true
  exactly when an entry exists for the key whose expiration has not passed; it reports
  not found (with a nil value) both when the key is absent and when the entry is
  present but expired; and the cache a Get leaves behind is the cache it was given.
\<close>

theorem Cache_Get_found_iff_live:
  "snd (Cache_Get c now key) = c \<and>
   (snd (fst (Cache_Get c now key)) \<longleftrightarrow>
      (\<exists>item. items c key = Some item \<and> \<not> now > Expiration item)) \<and>
   (\<forall>item. items c key = Some item \<and> \<not> now > Expiration item \<longrightarrow>
      Cache_Get c now key = ((Value item, True), c)) \<and>
   (items c key = None \<longrightarrow> Cache_Get c now key = (([], False), c)) \<and>
   (\<forall>item. items c key = Some item \<and> now > Expiration item \<longrightarrow>
      Cache_Get c now key = (([], False), c))"
  by (auto simp: Cache_Get_def split: option.splits)

theorem Cache_Get_found_iff_live_witness:
  "Cache_Get (Cache_Set (New_Cache 300) 1000 ''k'' ''v'') 1200 ''k''
     = ((''v'', True), Cache_Set (New_Cache 300) 1000 ''k'' ''v'') \<and>
   Cache_Get (Cache_Set (New_Cache 300) 1000 ''k'' ''v'') 1301 ''k''
     = (([], False), Cache_Set (New_Cache 300) 1000 ''k'' ''v'') \<and>
   Cache_Get (Cache_Set (New_Cache 300) 1000 ''k'' ''v'') 1200 ''other''
     = (([], False), Cache_Set (New_Cache 300) 1000 ''k'' ''v'')"
  using Cache_Get_found_iff_live
    [of "Cache_Set (New_Cache 300) 1000 ''k'' ''v''" 1200 "''k''"]
    Cache_Get_found_iff_live
    [of "Cache_Set (New_Cache 300) 1000 ''k'' ''v''" 1301 "''k''"]
    Cache_Get_found_iff_live
    [of "Cache_Set (New_Cache 300) 1000 ''k'' ''v''" 1200 "''other''"]
  by (simp add: Cache_Set_def New_Cache_def)

text \<open>
  Claim C10. An entry whose expiration equals the current time is still live: Get
  returns its value with found = true and the sweep keeps it. Both comparisons are
  strict, so an entry is expired only when the clock is strictly past its expiration.
\<close>

theorem live_at_expiration_instant:
  "items c key = Some item \<Longrightarrow> Expiration item = now \<Longrightarrow>
     fst (Cache_Get c now key) = (Value item, True) \<and>
     items (cleanup c now) key = Some item"
  by (simp add: Cache_Get_def cleanup_def)

theorem live_at_expiration_instant_witness:
  "items (Cache_Set (New_Cache 300) 1000 ''k'' ''v'') ''k''
     = Some \<lparr>Value = ''v'', Expiration = 1300\<rparr> \<and>
   fst (Cache_Get (Cache_Set (New_Cache 300) 1000 ''k'' ''v'') 1300 ''k'') = (''v'', True) \<and>
   items (cleanup (Cache_Set (New_Cache 300) 1000 ''k'' ''v'') 1300) ''k''
     = Some \<lparr>Value = ''v'', Expiration = 1300\<rparr>"
proof -
  have h: "items (Cache_Set (New_Cache 300) 1000 ''k'' ''v'') ''k''
             = Some \<lparr>Value = ''v'', Expiration = 1300\<rparr>"
    by (simp add: Cache_Set_def New_Cache_def)
  show ?thesis
    using h live_at_expiration_instant [OF h, of 1300] by simp
qed


section \<open>Arithmetic of the rounding\<close>


lemma wrap64_id: "- (2 ^ 63) \<le> x \<Longrightarrow> x < 2 ^ 63 \<Longrightarrow> wrap64 x = x"
  by (simp add: wrap64_def)

lemma sdiv_nonneg: "0 \<le> (n::int) \<Longrightarrow> 0 < t \<Longrightarrow> n sdiv t = n div t"
  by (simp add: signed_divide_int_def sgn_if)

lemma div_mult_le_int: "0 < (t::int) \<Longrightarrow> n div t * t \<le> n"
  using div_mult_mod_eq [of n t] pos_mod_sign [of t n] by linarith

lemma round_down_int64:
  assumes "0 \<le> n" "n < 2 ^ 63" "0 < t"
  shows "mul64 (div64 n t) t = (n div t) * t"
proof -
  have a: "0 \<le> n div t" using assms by (simp add: pos_imp_zdiv_nonneg_iff)
  have b: "n div t * t \<le> n" using assms by (simp add: div_mult_le_int)
  have "n div t * 1 \<le> n div t * t" using a assms by (intro mult_left_mono) auto
  then have c: "n div t \<le> n" using b by simp
  have "div64 n t = n div t"
    using assms a c by (simp add: div64_def sdiv_nonneg wrap64_id)
  moreover have "0 \<le> n div t * t" using a assms by simp
  ultimately show ?thesis using b assms by (simp add: mul64_def wrap64_id)
qed

lemma round_up_int64:
  assumes "0 \<le> n" "n + t < 2 ^ 63" "0 < t"
  shows "mul64 (div64 (sub64 (add64 n t) 1) t) t = ((n + t - 1) div t) * t"
proof -
  have "add64 n t = n + t" using assms by (simp add: add64_def wrap64_id)
  then have "sub64 (add64 n t) 1 = n + t - 1" using assms by (simp add: sub64_def wrap64_id)
  moreover have "mul64 (div64 (n + t - 1) t) t = ((n + t - 1) div t) * t"
    using assms by (intro round_down_int64) simp_all
  ultimately show ?thesis by simp
qed

lemma floor_divide_rat: 
  assumes "0 < t" shows "\<lfloor>(v::rat) / of_int t\<rfloor> = \<lfloor>v\<rfloor> div t"
proof -
  have "\<lfloor>(of_rat v :: real) / of_int t\<rfloor> = \<lfloor>(of_rat v :: real)\<rfloor> div t"
    using assms by (simp add: floor_divide_real_eq_div)
  moreover have "(of_rat v :: real) / of_int t = of_rat (v / of_int t)"
    by (simp add: of_rat_divide)
  ultimately show ?thesis by (simp only: of_rat_floor)
qed

lemma neg_div_eq:
  assumes "0 < (t::int)" shows "- ((- n) div t) = (n + t - 1) div t"
proof -
  define q where "q = (n + t - 1) div t"
  define r where "r = (n + t - 1) mod t"
  have e: "n + t - 1 = t * q + r" by (simp add: q_def r_def)
  have r: "0 \<le> r" "r < t" using assms by (simp_all add: r_def)
  have "- n = t * (- q) + (t - 1 - r)" using e by (simp add: algebra_simps)
  then have "(- n) div t = - q" using r int_div_pos_eq [of "- n" t "- q" "t - 1 - r"] by simp
  then show ?thesis by (simp add: q_def)
qed

lemma ceiling_divide_int:
  assumes "0 < t" shows "\<lceil>(of_int n :: rat) / of_int t\<rceil> = (n + t - 1) div t"
proof -
  have "\<lceil>(of_int n :: rat) / of_int t\<rceil> = - \<lfloor>(of_int (- n) :: rat) / of_int t\<rfloor>"
    by (simp add: ceiling_def)
  also have "\<dots> = - ((- n) div t)" by (simp only: floor_divide_of_int_eq)
  finally show ?thesis using assms by (simp add: neg_div_eq)
qed

lemma ceiling_divide_between:
  assumes "0 < t" "\<not> t dvd n" "of_int n \<le> (v::rat)" "v < of_int n + 1"
  shows "\<lceil>v / of_int t\<rceil> = (n + t - 1) div t"
proof -
  define q where "q = n div t"
  define r where "r = n mod t"
  have n: "n = t * q + r" by (simp add: q_def r_def)
  have "r \<noteq> 0" using assms(2) by (simp add: r_def dvd_eq_mod_eq_0)
  moreover have "0 \<le> r" "r < t" using assms(1) by (simp_all add: r_def)
  ultimately have r: "0 < r" "r < t" by simp_all
  have "n + t - 1 = t * (q + 1) + (r - 1)" using n by (simp add: algebra_simps)
  then have d: "(n + t - 1) div t = q + 1"
    using r int_div_pos_eq [of "n + t - 1" t "q + 1" "r - 1"] by simp
  have t: "(0::rat) < of_int t" using assms by simp
  have "of_int (q * t) < (of_int n :: rat)" using n r by (simp only: of_int_less_iff) (simp add: algebra_simps)
  then have lo: "of_int q * of_int t < v" using assms by simp
  have "(of_int (n + 1) :: rat) \<le> of_int ((q + 1) * t)"
    using n r by (simp only: of_int_le_iff) (simp add: algebra_simps)
  then have hi: "v \<le> of_int (q + 1) * of_int t" using assms by simp
  have "of_int (q + 1) - 1 < v / of_int t" using lo t by (simp add: pos_less_divide_eq)
  moreover have "v / of_int t \<le> of_int (q + 1)" using hi t by (simp add: pos_divide_le_eq)
  ultimately have "\<lceil>v / of_int t\<rceil> = q + 1" by (rule ceiling_unique)
  then show ?thesis using d by simp
qed

section \<open>Time bucketing\<close>



lemma floor_rat_numeral_div:
  "\<lfloor>(numeral a :: rat) / numeral b\<rfloor> = numeral a div numeral b"
  "\<lfloor>- (numeral a :: rat) / numeral b\<rfloor> = - numeral a div numeral b"
  "\<lfloor>(1 :: rat) / numeral b\<rfloor> = 1 div numeral b"
  using floor_divide_of_int_eq [where ?'a = rat, of "numeral a" "numeral b"]
    floor_divide_of_int_eq [where ?'a = rat, of "- numeral a" "numeral b"]
    floor_divide_of_int_eq [where ?'a = rat, of 1 "numeral b"]
  by simp_all

lemma ceiling_rat_numeral_div:
  "\<lceil>(numeral a :: rat) / numeral b\<rceil> = - (- numeral a div numeral b)"
  using floor_divide_of_int_eq [where ?'a = rat, of "- numeral a" "numeral b"]
  by (simp add: ceiling_def)

lemma Values_lookup_Set:
  "Values_lookup (Values_Set q k v) k' = (if k' = k then [v] else Values_lookup q k')"
  by (simp add: Values_lookup_def Values_Set_def update_conv')

lemma Values_Get_Set_other: "k' \<noteq> k \<Longrightarrow> Values_Get (Values_Set q k v) k' = Values_Get q k'"
  by (simp add: Values_Get_def Values_lookup_Set)

lemma roundTimeParameter_other:
  "k \<noteq> n \<Longrightarrow> Values_lookup (roundTimeParameter pf q n t up) k = Values_lookup q k"
  by (simp add: roundTimeParameter_def Let_def Values_lookup_Set split: option.splits)

lemma roundTimeParameter_Get_other:
  "k \<noteq> n \<Longrightarrow> Values_Get (roundTimeParameter pf q n t up) k = Values_Get q k"
  by (simp add: Values_Get_def roundTimeParameter_other)

lemma roundTimeParameter_down:
  assumes "Values_Get q n = s" "s \<noteq> []" "pf s = Some (Finite v)" "0 \<le> v" "\<lfloor>v\<rfloor> < 2 ^ 63" "0 < t"
  shows "Values_lookup (roundTimeParameter pf q n t False) n = [FormatInt (spec_round_down v t)]"
proof -
  have fl: "0 \<le> \<lfloor>v\<rfloor>" using assms by simp
  have "trunc v = \<lfloor>v\<rfloor>" using assms by (simp add: trunc_def)
  moreover have "- (2 ^ 63) \<le> \<lfloor>v\<rfloor> \<and> \<lfloor>v\<rfloor> < 2 ^ 63" using assms fl by linarith
  ultimately have "int64_of_float64 (Finite v) = \<lfloor>v\<rfloor>"
    by (simp add: int64_of_float64_def)
  moreover have "mul64 (div64 \<lfloor>v\<rfloor> t) t = spec_round_down v t"
    using assms fl by (simp add: round_down_int64 spec_round_down_def floor_divide_rat)
  ultimately show ?thesis
    using assms by (simp add: roundTimeParameter_def Values_lookup_Set)
qed

lemma roundTimeParameter_up:
  assumes "Values_Get q n = s" "s \<noteq> []" "pf s = Some (Finite v)" "0 \<le> v" "\<lfloor>v\<rfloor> + t < 2 ^ 63" "0 < t"
  shows "Values_lookup (roundTimeParameter pf q n t True) n = [FormatInt (spec_round_up (of_int \<lfloor>v\<rfloor>) t)]"
proof -
  have fl: "0 \<le> \<lfloor>v\<rfloor>" using assms by simp
  have "trunc v = \<lfloor>v\<rfloor>" using assms by (simp add: trunc_def)
  moreover have "- (2 ^ 63) \<le> \<lfloor>v\<rfloor> \<and> \<lfloor>v\<rfloor> < 2 ^ 63" using assms fl by linarith
  ultimately have "int64_of_float64 (Finite v) = \<lfloor>v\<rfloor>"
    by (simp add: int64_of_float64_def)
  moreover have "mul64 (div64 (sub64 (add64 \<lfloor>v\<rfloor> t) 1) t) t = spec_round_up (of_int \<lfloor>v\<rfloor>) t"
    using assms fl by (simp add: round_up_int64 spec_round_up_def ceiling_divide_int)
  ultimately show ?thesis
    using assms by (simp add: roundTimeParameter_def Values_lookup_Set)
qed

lemma roundTimeParameter_up_fraction:
  assumes "Values_Get q n = s" "s \<noteq> []" "pf s = Some (Finite v)" "0 \<le> v" "\<lfloor>v\<rfloor> + t < 2 ^ 63" "0 < t"
    and "of_int \<lfloor>v\<rfloor> = v \<or> \<not> t dvd \<lfloor>v\<rfloor>"
  shows "Values_lookup (roundTimeParameter pf q n t True) n = [FormatInt (spec_round_up v t)]"
proof -
  have "spec_round_up (of_int \<lfloor>v\<rfloor>) t = spec_round_up v t"
  proof (cases "of_int \<lfloor>v\<rfloor> = v")
    case True
    then show ?thesis by (rule arg_cong [of _ _ "\<lambda>x. spec_round_up x t"])
  next
    case False
    then have nd: "\<not> t dvd \<lfloor>v\<rfloor>" using assms by simp
    have "\<lceil>v / of_int t\<rceil> = (\<lfloor>v\<rfloor> + t - 1) div t"
      using assms(6) nd of_int_floor_le [of v] floor_correct [of v]
      by (intro ceiling_divide_between) simp_all
    moreover have "\<lceil>(of_int \<lfloor>v\<rfloor> :: rat) / of_int t\<rceil> = (\<lfloor>v\<rfloor> + t - 1) div t"
      using assms(6) by (rule ceiling_divide_int)
    ultimately show ?thesis by (simp add: spec_round_up_def)
  qed
  moreover have "Values_lookup (roundTimeParameter pf q n t True) n
      = [FormatInt (spec_round_up (of_int \<lfloor>v\<rfloor>) t)]"
    using assms(1-6) by (rule roundTimeParameter_up)
  ultimately show ?thesis by simp
qed

text \<open>
  Where the code agrees with the two formulas. Let the TTL have at least one whole
  second, \<open>t\<close> being its whole seconds, and let the first value of a parameter named
  \<open>time\<close>, \<open>start\<close> or \<open>end\<close> parse as a number \<open>v \<ge> 0\<close> whose whole part plus \<open>t\<close> is
  an \<open>int64\<close>; in the case of \<open>end\<close> let \<open>v\<close> be whole or its whole part be no multiple
  of \<open>t\<close>. Then the values of that parameter are replaced by one value: the floor of
  \<open>v / t\<close> times \<open>t\<close> for \<open>time\<close> and \<open>start\<close>, the ceiling of \<open>v / t\<close> times \<open>t\<close> for
  \<open>end\<close>.
\<close>

theorem time_parameters_bucketed:
  assumes "ttlSeconds_of p = t" and "0 < t"
    and "name \<in> {''time'', ''start'', ''end''}"
    and "Values_Get (URL_Query r) name = s" and "s \<noteq> []" and "pf s = Some (Finite v)"
    and "0 \<le> v" and "\<lfloor>v\<rfloor> + t < 2 ^ 63"
    and "name = ''end'' \<longrightarrow> of_int \<lfloor>v\<rfloor> = v \<or> \<not> t dvd \<lfloor>v\<rfloor>"
  shows "Values_lookup (roundTimeParameters pf p r) name =
           [FormatInt (if name = ''end'' then spec_round_up v t else spec_round_down v t)] \<and>
         generateCacheKey pf p r =
           Method r @ '':'' @ Path r @ '':'' @ normalizeQueryString (roundTimeParameters pf p r)"
proof -
  have lt: "\<lfloor>v\<rfloor> < 2 ^ 63" using assms by linarith
  let ?q1 = "roundTimeParameter pf (URL_Query r) ''time'' t False"
  let ?q2 = "roundTimeParameter pf ?q1 ''start'' t False"
  let ?q3 = "roundTimeParameter pf ?q2 ''end'' t True"
  have rt: "roundTimeParameters pf p r = ?q3"
    using assms by (simp add: roundTimeParameters_def)
  consider "name = ''time''" | "name = ''start''" | "name = ''end''" using assms by auto
  then have "Values_lookup ?q3 name =
           [FormatInt (if name = ''end'' then spec_round_up v t else spec_round_down v t)]"
  proof cases
    case 1
    have "Values_lookup ?q1 ''time'' = [FormatInt (spec_round_down v t)]"
      using assms lt 1 by (intro roundTimeParameter_down [where s = s]) simp_all
    then show ?thesis using 1 by (simp add: roundTimeParameter_other)
  next
    case 2
    have "Values_Get ?q1 ''start'' = s"
      using assms 2 by (simp add: roundTimeParameter_Get_other)
    then have "Values_lookup ?q2 ''start'' = [FormatInt (spec_round_down v t)]"
      using assms lt by (intro roundTimeParameter_down [where s = s]) simp_all
    then show ?thesis using 2 by (simp add: roundTimeParameter_other)
  next
    case 3
    have g: "Values_Get ?q2 ''end'' = s"
      using assms 3 by (simp add: roundTimeParameter_Get_other)
    have w: "of_int \<lfloor>v\<rfloor> = v \<or> \<not> t dvd \<lfloor>v\<rfloor>" using assms 3 by blast
    have "Values_lookup ?q3 ''end'' = [FormatInt (spec_round_up v t)]"
      using g assms(5,6,7,8,2) w by (rule roundTimeParameter_up_fraction)
    then show ?thesis using 3 by simp
  qed
  then show ?thesis using rt by (simp add: generateCacheKey_def)
qed

lemma ttlSeconds_proxy300: "ttlSeconds_of proxy300 = 300"
  by (simp add: ttlSeconds_of_def proxy300_def New_Proxy_def New_Cache_def Cache_TTL_def
      Seconds_def int64_of_float64_def trunc_def)

lemma URL_Query_range_request:
  "URL_Query range_request = [(''start'', [''1000'']), (''end'', [''1000'']), (''time'', [''950''])]"
  by (simp add: URL_Query_def range_request_def Values_Add_def Values_lookup_def)

lemma ParseFloat_decimal_examples:
  "ParseFloat_decimal ''1000'' = Some (Finite 1000)"
  "ParseFloat_decimal ''950'' = Some (Finite 950)"
  "ParseFloat_decimal ''2000'' = Some (Finite 2000)"
  "ParseFloat_decimal ''900.5'' = Some (Finite (1801 / 2))"
  "ParseFloat_decimal ''-100'' = Some (Finite (- 100))"
  by (simp_all add: ParseFloat_decimal_def isDigit_def)

text \<open>
  The examples of the specification, with a TTL of 300 seconds: \<open>start=1000\<close> becomes 900,
  \<open>end=1000\<close> becomes 1200 and \<open>time=950\<close> becomes 900.
\<close>

theorem time_parameters_bucketed_witness:
  "ttlSeconds_of proxy300 = 300 \<and>
   Values_Get (URL_Query range_request) ''start'' = ''1000'' \<and>
   Values_Get (URL_Query range_request) ''end'' = ''1000'' \<and>
   Values_Get (URL_Query range_request) ''time'' = ''950'' \<and>
   Values_lookup (roundTimeParameters ParseFloat_decimal proxy300 range_request) ''start'' = [''900''] \<and>
   Values_lookup (roundTimeParameters ParseFloat_decimal proxy300 range_request) ''end'' = [''1200''] \<and>
   Values_lookup (roundTimeParameters ParseFloat_decimal proxy300 range_request) ''time'' = [''900'']"
proof -
  have g: "Values_Get (URL_Query range_request) ''start'' = ''1000''"
    "Values_Get (URL_Query range_request) ''end'' = ''1000''"
    "Values_Get (URL_Query range_request) ''time'' = ''950''"
    by (simp_all add: URL_Query_range_request Values_Get_def Values_lookup_def)
  have e: "FormatInt (spec_round_down 1000 300) = ''900''"
    "FormatInt (spec_round_up 1000 300) = ''1200''"
    "FormatInt (spec_round_down 950 300) = ''900''"
    by (simp_all add: spec_round_down_def spec_round_up_def FormatInt_def
        floor_rat_numeral_div ceiling_rat_numeral_div)
  have "Values_lookup (roundTimeParameters ParseFloat_decimal proxy300 range_request) ''start'' = [''900'']"
    using time_parameters_bucketed [OF ttlSeconds_proxy300, of "''start''" range_request "''1000''"
        ParseFloat_decimal 1000] g e
    by (simp add: ParseFloat_decimal_examples)
  moreover have "Values_lookup (roundTimeParameters ParseFloat_decimal proxy300 range_request) ''end'' = [''1200'']"
    using time_parameters_bucketed [OF ttlSeconds_proxy300, of "''end''" range_request "''1000''"
        ParseFloat_decimal 1000] g e
    by (simp add: ParseFloat_decimal_examples)
  moreover have "Values_lookup (roundTimeParameters ParseFloat_decimal proxy300 range_request) ''time'' = [''900'']"
    using time_parameters_bucketed [OF ttlSeconds_proxy300, of "''time''" range_request "''950''"
        ParseFloat_decimal 950] g e
    by (simp add: ParseFloat_decimal_examples)
  ultimately show ?thesis using g ttlSeconds_proxy300 by simp
qed

lemma int64_examples:
  "int64_of_float64 (Finite (1801 / 2)) = 900"
  "int64_of_float64 (Finite (- 100)) = - 100"
  "int64_of_float64 (Finite 1000) = 1000"
  "int64_of_float64 (Finite 2000) = 2000"
  by (simp_all add: int64_of_float64_def trunc_def floor_rat_numeral_div)

lemma round_examples:
  "mul64 (div64 (sub64 (add64 900 300) 1) 300) 300 = 900"
  "mul64 (div64 (- 100) 300) 300 = 0"
  "mul64 (div64 1000 300) 300 = 900"
  "mul64 (div64 2000 300) 300 = 1800"
  by (simp_all add: mul64_def div64_def add64_def sub64_def wrap64_def signed_divide_int_def)

lemma FormatInt_examples:
  "FormatInt 900 = ''900''" "FormatInt 0 = ''0''" "FormatInt 1800 = ''1800''"
  by (simp_all add: FormatInt_def)

text \<open>
  Claim C1 says that, for a positive TTL, a \<open>time\<close> or \<open>start\<close> value that parses is
  replaced by the floor of value / ttlSeconds times ttlSeconds and an \<open>end\<close> value by
  the ceiling of value / ttlSeconds times ttlSeconds. The code does not do this: it
  discards the fraction before it rounds up and divides towards zero. With a TTL of 300
  seconds \<open>end=900.5\<close> becomes 900, where the ceiling gives 1200, and \<open>start=-100\<close>
  becomes 0, where the floor gives -300 (the two values parse as 1801/2 and -100, see
  \<open>ParseFloat_decimal_examples\<close>).
\<close>

theorem time_bucketing_failing_input:
  "ttlSeconds_of proxy300 = 300 \<and>
   Values_lookup (roundTimeParameters ParseFloat_decimal proxy300
       \<lparr>Method = ''GET'', Path = ''/api/v1/query_range'', QueryPairs = [(''end'', ''900.5'')]\<rparr>)
     ''end'' = [''900''] \<and>
   FormatInt (spec_round_up (1801 / 2) 300) = ''1200'' \<and>
   Values_lookup (roundTimeParameters ParseFloat_decimal proxy300
       \<lparr>Method = ''GET'', Path = ''/api/v1/query_range'', QueryPairs = [(''start'', ''-100'')]\<rparr>)
     ''start'' = [''0''] \<and>
   FormatInt (spec_round_down (- 100) 300) = ''-300''"
proof -
  have a: "Values_lookup (roundTimeParameters ParseFloat_decimal proxy300
       \<lparr>Method = ''GET'', Path = ''/api/v1/query_range'', QueryPairs = [(''end'', ''900.5'')]\<rparr>)
     ''end'' = [''900'']"
    by (simp add: roundTimeParameters_def ttlSeconds_proxy300 URL_Query_def Values_Add_def
        roundTimeParameter_def Values_Get_def Values_lookup_def Values_Set_def
        ParseFloat_decimal_examples int64_examples round_examples FormatInt_examples)
  have b: "FormatInt (spec_round_up (1801 / 2) 300) = ''1200''"
    using floor_divide_of_int_eq [where ?'a = rat, of "- 1801" 600]
    by (simp add: spec_round_up_def FormatInt_def ceiling_def)
  have c: "Values_lookup (roundTimeParameters ParseFloat_decimal proxy300
       \<lparr>Method = ''GET'', Path = ''/api/v1/query_range'', QueryPairs = [(''start'', ''-100'')]\<rparr>)
     ''start'' = [''0'']"
    by (simp add: roundTimeParameters_def ttlSeconds_proxy300 URL_Query_def Values_Add_def
        roundTimeParameter_def Values_Get_def Values_lookup_def Values_Set_def
        ParseFloat_decimal_examples int64_examples round_examples FormatInt_examples)
  have d: "FormatInt (spec_round_down (- 100) 300) = ''-300''"
    using floor_divide_of_int_eq [where ?'a = rat, of "- 100" 300]
    by (simp add: spec_round_down_def FormatInt_def)
  show ?thesis using a b c d by (simp add: ttlSeconds_proxy300)
qed

section \<open>The query as a map\<close>

lemma Values_lookup_Add:
  "Values_lookup (Values_Add q k v) k' =
     (if k' = k then Values_lookup q k @ [v] else Values_lookup q k')"
  by (simp add: Values_lookup_def Values_Add_def update_conv')

lemma keys_Add: "fst ` set (Values_Add q k v) = insert k (fst ` set q)"
  by (simp add: Values_Add_def dom_update)

lemma keys_Set: "fst ` set (Values_Set q k v) = insert k (fst ` set q)"
  by (simp add: Values_Set_def dom_update)

lemma wf_Values_Add: "wf_Values q \<Longrightarrow> wf_Values (Values_Add q k v)"
  by (auto simp: wf_Values_def keys_Add Values_lookup_Add) (simp add: Values_Add_def distinct_update)

lemma wf_Values_Set: "wf_Values q \<Longrightarrow> wf_Values (Values_Set q k v)"
  by (auto simp: wf_Values_def keys_Set Values_lookup_Set) (simp add: Values_Set_def distinct_update)

lemma foldl_Add:
  "Values_lookup (foldl (\<lambda>v (key, val). Values_Add v key val) acc ps) k
     = Values_lookup acc k @ values_of k ps \<and>
   fst ` set (foldl (\<lambda>v (key, val). Values_Add v key val) acc ps) = fst ` set acc \<union> fst ` set ps \<and>
   (wf_Values acc \<longrightarrow> wf_Values (foldl (\<lambda>v (key, val). Values_Add v key val) acc ps))"
proof (induction ps arbitrary: acc)
  case Nil
  then show ?case by (simp add: values_of_def)
next
  case (Cons a ps)
  obtain key val where a: "a = (key, val)" by (cases a)
  show ?case
    using Cons.IH [of "Values_Add acc key val"]
    by (auto simp: a Values_lookup_Add keys_Add values_of_def wf_Values_Add)
qed

lemma Values_lookup_URL_Query: "Values_lookup (URL_Query r) k = values_of k (QueryPairs r)"
  using foldl_Add [of "[]" "QueryPairs r" k] by (simp add: URL_Query_def Values_lookup_def)

lemma keys_URL_Query: "fst ` set (URL_Query r) = fst ` set (QueryPairs r)"
  using foldl_Add [of "[]" "QueryPairs r"] by (simp add: URL_Query_def)

lemma wf_URL_Query: "wf_Values (URL_Query r)"
proof -
  have "wf_Values []" by (simp add: wf_Values_def)
  then show ?thesis using foldl_Add [of "[]" "QueryPairs r"] by (simp add: URL_Query_def)
qed

lemma Values_Get_nonempty_key: "Values_Get q n \<noteq> [] \<Longrightarrow> n \<in> fst ` set q"
  using map_of_eq_None_iff [of q n]
  by (auto simp: Values_Get_def Values_lookup_def split: option.splits list.splits)

lemma keys_roundTimeParameter: "fst ` set (roundTimeParameter pf q n t up) = fst ` set q"
  using Values_Get_nonempty_key [of q n]
  by (auto simp: roundTimeParameter_def Let_def keys_Set split: option.splits)

lemma wf_roundTimeParameter: "wf_Values q \<Longrightarrow> wf_Values (roundTimeParameter pf q n t up)"
  by (simp add: roundTimeParameter_def Let_def wf_Values_Set split: option.splits)

lemma roundTimeParameter_skip:
  "Values_Get q n = [] \<or> pf (Values_Get q n) = None \<Longrightarrow> roundTimeParameter pf q n t up = q"
  by (auto simp: roundTimeParameter_def Let_def)

lemma roundTimeParameter_single:
  "Values_Get q n \<noteq> [] \<Longrightarrow> pf (Values_Get q n) \<noteq> None \<Longrightarrow>
     \<exists>x. Values_lookup (roundTimeParameter pf q n t up) n = [x]"
  by (auto simp: roundTimeParameter_def Let_def Values_lookup_Set)

lemma keys_roundTimeParameters: "fst ` set (roundTimeParameters pf p r) = fst ` set (QueryPairs r)"
  by (simp add: roundTimeParameters_def Let_def keys_roundTimeParameter keys_URL_Query)

lemma wf_roundTimeParameters: "wf_Values (roundTimeParameters pf p r)"
  by (simp add: roundTimeParameters_def Let_def wf_roundTimeParameter wf_URL_Query)

lemma roundTimeParameters_not_bucketed:
  assumes "\<not> bucketed pf p r k"
  shows "Values_lookup (roundTimeParameters pf p r) k = values_of k (QueryPairs r)"
proof (cases "ttlSeconds_of p > 0")
  case False
  then show ?thesis by (simp add: roundTimeParameters_def Let_def Values_lookup_URL_Query)
next
  case True
  let ?q0 = "URL_Query r"
  let ?q1 = "roundTimeParameter pf ?q0 ''time'' (ttlSeconds_of p) False"
  let ?q2 = "roundTimeParameter pf ?q1 ''start'' (ttlSeconds_of p) False"
  let ?q3 = "roundTimeParameter pf ?q2 ''end'' (ttlSeconds_of p) True"
  have skip: "k \<in> {''time'', ''start'', ''end''} \<Longrightarrow>
      Values_Get ?q0 k = [] \<or> pf (Values_Get ?q0 k) = None"
    using assms True by (auto simp: bucketed_def)
  have 1: "Values_lookup ?q1 k = Values_lookup ?q0 k"
  proof (cases "k = ''time''")
    case True
    then show ?thesis using skip by (simp add: roundTimeParameter_skip)
  qed (simp add: roundTimeParameter_other)
  have 2: "Values_lookup ?q2 k = Values_lookup ?q1 k"
  proof (cases "k = ''start''")
    case True
    have "Values_Get ?q1 ''start'' = Values_Get ?q0 ''start''"
      by (simp add: roundTimeParameter_Get_other)
    then show ?thesis using True skip by (simp add: roundTimeParameter_skip)
  qed (simp add: roundTimeParameter_other)
  have 3: "Values_lookup ?q3 k = Values_lookup ?q2 k"
  proof (cases "k = ''end''")
    case True
    have "Values_Get ?q2 ''end'' = Values_Get ?q0 ''end''"
      by (simp add: roundTimeParameter_Get_other)
    then show ?thesis using True skip by (simp add: roundTimeParameter_skip)
  qed (simp add: roundTimeParameter_other)
  show ?thesis using True 1 2 3
    by (simp add: roundTimeParameters_def Let_def Values_lookup_URL_Query)
qed

lemma roundTimeParameters_bucketed:
  assumes "bucketed pf p r k"
  shows "\<exists>x. Values_lookup (roundTimeParameters pf p r) k = [x]"
proof -
  let ?t = "ttlSeconds_of p"
  let ?q0 = "URL_Query r"
  let ?q1 = "roundTimeParameter pf ?q0 ''time'' ?t False"
  let ?q2 = "roundTimeParameter pf ?q1 ''start'' ?t False"
  let ?q3 = "roundTimeParameter pf ?q2 ''end'' ?t True"
  have b: "0 < ?t" "Values_Get ?q0 k \<noteq> []" "pf (Values_Get ?q0 k) \<noteq> None"
    using assms by (auto simp: bucketed_def)
  have rt: "roundTimeParameters pf p r = ?q3" using b by (simp add: roundTimeParameters_def Let_def)
  consider "k = ''time''" | "k = ''start''" | "k = ''end''" using assms by (auto simp: bucketed_def)
  then have "\<exists>x. Values_lookup ?q3 k = [x]"
  proof cases
    case 1
    then have "\<exists>x. Values_lookup ?q1 k = [x]" using b by (simp add: roundTimeParameter_single)
    then show ?thesis using 1 by (simp add: roundTimeParameter_other)
  next
    case 2
    have "Values_Get ?q1 ''start'' = Values_Get ?q0 ''start''"
      by (simp add: roundTimeParameter_Get_other)
    then have "\<exists>x. Values_lookup ?q2 k = [x]" using 2 b by (simp add: roundTimeParameter_single)
    then show ?thesis using 2 by (simp add: roundTimeParameter_other)
  next
    case 3
    have "Values_Get ?q2 ''end'' = Values_Get ?q0 ''end''"
      by (simp add: roundTimeParameter_Get_other)
    then show ?thesis using 3 b by (simp add: roundTimeParameter_single)
  qed
  then show ?thesis using rt by simp
qed

section \<open>The key in closed form\<close>

lemma join_amp_Cons: "join_amp (x # xs) = x @ concat (map (\<lambda>y. ''&'' @ y) xs)"
  by (induction xs arbitrary: x) simp_all

lemma join_amp_render: "join_amp (map render_pair (p # ps)) = render_pair p @ amp_all ps"
  by (simp add: join_amp_Cons amp_all_def comp_def)

lemma amp_all_append: "amp_all (xs @ ys) = amp_all xs @ amp_all ys"
  by (simp add: amp_all_def)

lemma writeValues_amp:
  "i > 0 \<or> j > 0 \<Longrightarrow> writeValues i k j vs = amp_all (map (Pair k) vs)"
  by (induction vs arbitrary: j) (auto simp: amp_all_def render_pair_def)

lemma writeValues_first:
  "writeValues 0 k 0 (v # vs) = render_pair (k, v) @ amp_all (map (Pair k) vs)"
  by (simp add: writeValues_amp render_pair_def)

lemma writeKeys_amp:
  "i > 0 \<Longrightarrow> writeKeys q i ks =
     amp_all (concat (map (\<lambda>k. map (Pair k) (sort (Values_lookup q k))) ks))"
  by (induction ks arbitrary: i) (simp_all add: amp_all_def writeValues_amp amp_all_append)

lemma sort_eq_Nil: "sort xs = [] \<longleftrightarrow> xs = []"
  by (metis length_sort length_0_conv)

lemma writeKeys_join:
  assumes "\<forall>k \<in> set ks. Values_lookup q k \<noteq> []"
  shows "writeKeys q 0 ks =
     join_amp (map render_pair (concat (map (\<lambda>k. map (Pair k) (sort (Values_lookup q k))) ks)))"
proof (cases ks)
  case Nil
  then show ?thesis by simp
next
  case (Cons k ks')
  then have "sort (Values_lookup q k) \<noteq> []" using assms by (simp add: sort_eq_Nil)
  then obtain v vs where s: "sort (Values_lookup q k) = v # vs" by (cases "sort (Values_lookup q k)") auto
  let ?rest = "concat (map (\<lambda>k. map (Pair k) (sort (Values_lookup q k))) ks')"
  have "writeKeys q 0 ks = render_pair (k, v) @ amp_all (map (Pair k) vs) @ amp_all ?rest"
    by (simp add: Cons s writeValues_amp writeKeys_amp render_pair_def)
  moreover have "join_amp (map render_pair ((k, v) # map (Pair k) vs @ ?rest))
      = render_pair (k, v) @ amp_all (map (Pair k) vs) @ amp_all ?rest"
    by (simp only: join_amp_render amp_all_append)
  ultimately show ?thesis by (simp add: Cons s)
qed

lemma normalizeQueryString_join:
  assumes "wf_Values q"
  shows "normalizeQueryString q = join_amp (map render_pair (key_pairs q))"
proof (cases q)
  case Nil
  then show ?thesis by (simp add: normalizeQueryString_def key_pairs_def)
next
  case (Cons a q')
  have "\<forall>k \<in> set (sort (map fst q)). Values_lookup q k \<noteq> []"
    using assms by (auto simp: wf_Values_def)
  then show ?thesis
    using Cons by (simp add: normalizeQueryString_def key_pairs_def writeKeys_join del: writeKeys.simps)
qed

lemma values_of_concat:
  "distinct ks \<Longrightarrow>
     values_of k (concat (map (\<lambda>k'. map (Pair k') (g k')) ks)) = (if k \<in> set ks then g k else [])"
proof (induction ks)
  case Nil
  then show ?case by (simp add: values_of_def)
next
  case (Cons a ks)
  have f: "filter (\<lambda>p. fst p = k) (map (Pair a) (g a)) = (if a = k then map (Pair a) (g a) else [])"
    by (induction "g a") (auto simp: filter_empty_conv)
  show ?case using Cons f by (auto simp: values_of_def comp_def)
qed

lemma Values_lookup_no_key: "k \<notin> fst ` set q \<Longrightarrow> Values_lookup q k = []"
  using map_of_eq_None_iff [of q k] by (simp add: Values_lookup_def)

lemma values_of_key_pairs:
  assumes "distinct (map fst q)"
  shows "values_of k (key_pairs q) = sort (Values_lookup q k)"
proof -
  have "distinct (sort (map fst q))" using assms by simp
  then have "values_of k (key_pairs q) =
      (if k \<in> set (sort (map fst q)) then sort (Values_lookup q k) else [])"
    unfolding key_pairs_def by (rule values_of_concat)
  then show ?thesis by (auto simp: Values_lookup_no_key)
qed

lemma names_key_pairs_sorted: "sorted (map fst (key_pairs q))"
proof -
  have "sorted ks \<Longrightarrow> sorted (map fst (concat (map (\<lambda>k. map (Pair k) (g k)) ks)))"
    for ks :: "string list" and g :: "string \<Rightarrow> string list"
    by (induction ks) (auto simp: sorted_append comp_def map_replicate_const)
  then show ?thesis by (simp add: key_pairs_def)
qed

text \<open>
  Claim C6, as amended. The query part of the key is the ampersand-joined list of the
  pairs \<open>name=value\<close> of the query after bucketing, with the names in sorted order.
  For every parameter that is not bucketed, the key has one pair per value of the
  request, in sorted order, so no value of a repeated parameter is dropped. Of a
  bucketed \<open>time\<close>, \<open>start\<close> or \<open>end\<close> the key has a single pair, whatever the number of
  values in the request.
\<close>

theorem key_has_pair_per_value:
  "generateCacheKey pf p r =
     Method r @ '':'' @ Path r @ '':'' @
       join_amp (map render_pair (key_pairs (roundTimeParameters pf p r))) \<and>
   sorted (map fst (key_pairs (roundTimeParameters pf p r))) \<and>
   (\<not> bucketed pf p r k \<longrightarrow>
      values_of k (key_pairs (roundTimeParameters pf p r)) = sort (values_of k (QueryPairs r))) \<and>
   (bucketed pf p r k \<longrightarrow>
      (\<exists>x. values_of k (key_pairs (roundTimeParameters pf p r)) = [x]))"
proof -
  have wf: "wf_Values (roundTimeParameters pf p r)" by (rule wf_roundTimeParameters)
  then have d: "distinct (map fst (roundTimeParameters pf p r))" by (simp add: wf_Values_def)
  have "bucketed pf p r k \<Longrightarrow> \<exists>x. values_of k (key_pairs (roundTimeParameters pf p r)) = [x]"
    using roundTimeParameters_bucketed [of pf p r k] d by (auto simp: values_of_key_pairs)
  then show ?thesis
    using wf d
    by (auto simp: generateCacheKey_def normalizeQueryString_join names_key_pairs_sorted
        values_of_key_pairs roundTimeParameters_not_bucketed)
qed

lemma URL_Query_series_request:
  "URL_Query series_request = [(''match[]'', [''up'', ''node'']), (''start'', [''1000'', ''2000''])]"
  "URL_Query series_request_swapped = [(''start'', [''2000'', ''1000'']), (''match[]'', [''node'', ''up''])]"
  by (simp_all add: URL_Query_def series_request_def series_request_swapped_def Values_Add_def Values_lookup_def)

lemma rounded_series_request:
  "roundTimeParameters ParseFloat_decimal proxy300 series_request
     = [(''match[]'', [''up'', ''node'']), (''start'', [''900''])]"
  by (simp add: roundTimeParameters_def ttlSeconds_proxy300 URL_Query_series_request
        roundTimeParameter_def Values_Get_def Values_lookup_def Values_Set_def
        ParseFloat_decimal_examples int64_examples round_examples FormatInt_examples)

lemma rounded_series_request_swapped:
  "roundTimeParameters ParseFloat_decimal proxy300 series_request_swapped
     = [(''start'', [''1800'']), (''match[]'', [''node'', ''up''])]"
  by (simp add: roundTimeParameters_def ttlSeconds_proxy300 URL_Query_series_request
        roundTimeParameter_def Values_Get_def Values_lookup_def Values_Set_def
        ParseFloat_decimal_examples int64_examples round_examples FormatInt_examples)

lemma key_series_request:
  "generateCacheKey ParseFloat_decimal proxy300 series_request
     = ''GET:/api/v1/series:match[]=node&match[]=up&start=900''"
  by (simp add: generateCacheKey_def rounded_series_request normalizeQueryString_def
      Values_lookup_def) (simp add: series_request_def)

lemma key_series_request_swapped:
  "generateCacheKey ParseFloat_decimal proxy300 series_request_swapped
     = ''GET:/api/v1/series:match[]=node&match[]=up&start=1800''"
  by (simp add: generateCacheKey_def rounded_series_request_swapped normalizeQueryString_def
      Values_lookup_def) (simp add: series_request_swapped_def)

lemma bucketed_series_request:
  "bucketed ParseFloat_decimal proxy300 series_request ''start''"
  "\<not> bucketed ParseFloat_decimal proxy300 series_request ''match[]''"
  by (simp_all add: bucketed_def ttlSeconds_proxy300 URL_Query_series_request Values_Get_def
      Values_lookup_def ParseFloat_decimal_examples)

theorem key_has_pair_per_value_witness:
  "\<not> bucketed ParseFloat_decimal proxy300 series_request ''match[]'' \<and>
   values_of ''match[]'' (QueryPairs series_request) = [''up'', ''node''] \<and>
   values_of ''match[]'' (key_pairs (roundTimeParameters ParseFloat_decimal proxy300 series_request))
     = [''node'', ''up''] \<and>
   bucketed ParseFloat_decimal proxy300 series_request ''start'' \<and>
   (\<exists>x. values_of ''start'' (key_pairs (roundTimeParameters ParseFloat_decimal proxy300 series_request))
     = [x])"
proof -
  have v: "values_of ''match[]'' (QueryPairs series_request) = [''up'', ''node'']"
    by (simp add: values_of_def series_request_def)
  have s: "sort [''up'', ''node''] = [''node'', ''up'']" by simp
  show ?thesis
    using key_has_pair_per_value [of ParseFloat_decimal proxy300 series_request "''match[]''"]
      key_has_pair_per_value [of ParseFloat_decimal proxy300 series_request "''start''"]
      bucketed_series_request v s
    by simp
qed

text \<open>
  The claim as written fails for a repeated time parameter: of \<open>start=1000&start=2000\<close>
  the key keeps the single pair \<open>start=900\<close>.
\<close>

theorem repeated_time_parameter_counterexample:
  "values_of ''start'' (QueryPairs series_request) = [''1000'', ''2000''] \<and>
   values_of ''start'' (key_pairs (roundTimeParameters ParseFloat_decimal proxy300 series_request))
     = [''900''] \<and>
   generateCacheKey ParseFloat_decimal proxy300 series_request
     = ''GET:/api/v1/series:match[]=node&match[]=up&start=900''"
proof -
  have "values_of ''start'' (QueryPairs series_request) = [''1000'', ''2000'']"
    by (simp add: values_of_def series_request_def)
  moreover have "values_of ''start''
      (key_pairs (roundTimeParameters ParseFloat_decimal proxy300 series_request)) = [''900'']"
    by (simp add: rounded_series_request values_of_key_pairs Values_lookup_def)
  ultimately show ?thesis by (simp add: key_series_request)
qed

section \<open>Order of the parameters\<close>

lemma same_view_roundTimeParameter:
  assumes "same_view q1 q2" "Values_Get q1 n = Values_Get q2 n"
  shows "same_view (roundTimeParameter pf q1 n t up) (roundTimeParameter pf q2 n t up)"
  using assms
  by (auto simp: same_view_def roundTimeParameter_def Let_def keys_Set Values_lookup_Set
      split: option.splits)

lemma mset_values_of:
  "mset (values_of k ps) = image_mset snd (filter_mset (\<lambda>p. fst p = k) (mset ps))"
  by (simp add: values_of_def)

lemma same_view_URL_Query:
  assumes "mset (QueryPairs r1) = mset (QueryPairs r2)"
  shows "same_view (URL_Query r1) (URL_Query r2)"
proof -
  have "set (QueryPairs r1) = set (QueryPairs r2)" using assms by (rule mset_eq_setD)
  then show ?thesis
    using assms by (simp add: same_view_def keys_URL_Query Values_lookup_URL_Query mset_values_of)
qed

lemma sort_mset_eq: "mset xs = mset ys \<Longrightarrow> sort xs = sort ys"
  by (metis properties_for_sort mset_sort sorted_sort)

lemma writeKeys_cong:
  assumes "\<forall>k. mset (Values_lookup q1 k) = mset (Values_lookup q2 k)"
  shows "writeKeys q1 i ks = writeKeys q2 i ks"
proof -
  have "sort (Values_lookup q1 k) = sort (Values_lookup q2 k)" for k
    using assms by (intro sort_mset_eq) simp
  then show ?thesis by (induction ks arbitrary: i) simp_all
qed

lemma normalizeQueryString_same_view:
  assumes "same_view q1 q2" "distinct (map fst q1)" "distinct (map fst q2)"
  shows "normalizeQueryString q1 = normalizeQueryString q2"
proof -
  have s: "set (map fst q1) = set (map fst q2)" using assms by (simp add: same_view_def)
  then have "mset (map fst q1) = mset (map fst q2)"
    using assms set_eq_iff_mset_eq_distinct [of "map fst q1" "map fst q2"] by blast
  then have k: "sort (map fst q1) = sort (map fst q2)" by (rule sort_mset_eq)
  have "q1 = [] \<longleftrightarrow> q2 = []" using s by (cases q1; cases q2) auto
  then show ?thesis
    using assms k writeKeys_cong [of q1 q2]
    by (auto simp: normalizeQueryString_def same_view_def)
qed

text \<open>
  Claim C4, as amended. Two requests with the same method and path whose queries hold
  the same multiset of name-value pairs have the same key, provided that, when the TTL
  has a whole second, the first value of each of \<open>time\<close>, \<open>start\<close> and \<open>end\<close> is the
  same in both (as it is when none of them is repeated).
\<close>

theorem key_order_insensitive:
  assumes "Method r1 = Method r2" and "Path r1 = Path r2"
    and "mset (QueryPairs r1) = mset (QueryPairs r2)"
    and "ttlSeconds_of p \<le> 0 \<or>
         (\<forall>n \<in> {''time'', ''start'', ''end''}.
            Values_Get (URL_Query r1) n = Values_Get (URL_Query r2) n)"
  shows "generateCacheKey pf p r1 = generateCacheKey pf p r2"
proof -
  let ?t = "ttlSeconds_of p"
  have v0: "same_view (URL_Query r1) (URL_Query r2)" using assms by (simp add: same_view_URL_Query)
  have "same_view (roundTimeParameters pf p r1) (roundTimeParameters pf p r2)"
  proof (cases "0 < ?t")
    case False
    then show ?thesis using v0 by (simp add: roundTimeParameters_def Let_def)
  next
    case True
    then have g: "Values_Get (URL_Query r1) ''time'' = Values_Get (URL_Query r2) ''time''"
      "Values_Get (URL_Query r1) ''start'' = Values_Get (URL_Query r2) ''start''"
      "Values_Get (URL_Query r1) ''end'' = Values_Get (URL_Query r2) ''end''"
      using assms by auto
    let ?a1 = "roundTimeParameter pf (URL_Query r1) ''time'' ?t False"
    let ?a2 = "roundTimeParameter pf (URL_Query r2) ''time'' ?t False"
    let ?b1 = "roundTimeParameter pf ?a1 ''start'' ?t False"
    let ?b2 = "roundTimeParameter pf ?a2 ''start'' ?t False"
    have 1: "same_view ?a1 ?a2" using v0 g(1) by (rule same_view_roundTimeParameter)
    have "Values_Get ?a1 ''start'' = Values_Get ?a2 ''start''"
      using g by (simp add: roundTimeParameter_Get_other)
    with 1 have 2: "same_view ?b1 ?b2" by (rule same_view_roundTimeParameter)
    have "Values_Get ?b1 ''end'' = Values_Get ?b2 ''end''"
      using g by (simp add: roundTimeParameter_Get_other)
    with 2 have "same_view (roundTimeParameter pf ?b1 ''end'' ?t True)
                 (roundTimeParameter pf ?b2 ''end'' ?t True)"
      by (rule same_view_roundTimeParameter)
    then show ?thesis using True by (simp add: roundTimeParameters_def Let_def)
  qed
  moreover have "distinct (map fst (roundTimeParameters pf p r1))"
    "distinct (map fst (roundTimeParameters pf p r2))"
    using wf_roundTimeParameters by (simp_all add: wf_Values_def)
  ultimately have "normalizeQueryString (roundTimeParameters pf p r1)
      = normalizeQueryString (roundTimeParameters pf p r2)"
    by (rule normalizeQueryString_same_view)
  then show ?thesis using assms by (simp add: generateCacheKey_def)
qed

lemma URL_Query_ab:
  "URL_Query ab_request = [(''a'', [''1'']), (''b'', [''2''])]"
  "URL_Query ba_request = [(''b'', [''2'']), (''a'', [''1''])]"
  by (simp_all add: URL_Query_def ab_request_def ba_request_def Values_Add_def Values_lookup_def)

theorem key_order_insensitive_witness:
  "mset (QueryPairs ab_request) = mset (QueryPairs ba_request) \<and>
   generateCacheKey ParseFloat_decimal proxy300 ab_request = ''GET:/api/v1/query:a=1&b=2'' \<and>
   generateCacheKey ParseFloat_decimal proxy300 ba_request = ''GET:/api/v1/query:a=1&b=2''"
proof -
  have m: "mset (QueryPairs ab_request) = mset (QueryPairs ba_request)"
    by (simp add: ab_request_def ba_request_def)
  have g: "\<forall>n \<in> {''time'', ''start'', ''end''}.
      Values_Get (URL_Query ab_request) n = Values_Get (URL_Query ba_request) n"
    by (simp add: URL_Query_ab Values_Get_def Values_lookup_def)
  have k: "generateCacheKey ParseFloat_decimal proxy300 ab_request = ''GET:/api/v1/query:a=1&b=2''"
    by (simp add: generateCacheKey_def roundTimeParameters_def ttlSeconds_proxy300 URL_Query_ab
        roundTimeParameter_def Values_Get_def Values_lookup_def normalizeQueryString_def)
       (simp add: ab_request_def)
  have "generateCacheKey ParseFloat_decimal proxy300 ab_request
      = generateCacheKey ParseFloat_decimal proxy300 ba_request"
    using m g
      key_order_insensitive [of ab_request ba_request proxy300 ParseFloat_decimal]
    by (simp add: ab_request_def ba_request_def)
  then show ?thesis using m k by simp
qed

text \<open>
  The claim as written fails when a time parameter is repeated: the two requests hold
  the same pairs, but the first \<open>start\<close> is 1000 in one and 2000 in the other.
\<close>

theorem key_value_order_counterexample:
  "Method series_request = Method series_request_swapped \<and>
   Path series_request = Path series_request_swapped \<and>
   mset (QueryPairs series_request) = mset (QueryPairs series_request_swapped) \<and>
   generateCacheKey ParseFloat_decimal proxy300 series_request
     = ''GET:/api/v1/series:match[]=node&match[]=up&start=900'' \<and>
   generateCacheKey ParseFloat_decimal proxy300 series_request_swapped
     = ''GET:/api/v1/series:match[]=node&match[]=up&start=1800'' \<and>
   generateCacheKey ParseFloat_decimal proxy300 series_request
     \<noteq> generateCacheKey ParseFloat_decimal proxy300 series_request_swapped"
proof -
  have "mset (QueryPairs series_request) = mset (QueryPairs series_request_swapped)"
    by (simp add: series_request_def series_request_swapped_def)
  then show ?thesis
    by (simp add: key_series_request key_series_request_swapped)
       (simp add: series_request_def series_request_swapped_def)
qed

section \<open>The request handler\<close>

lemma tryServeCachedResponse_proxy:
  "tryServeCachedResponse unmarshal p now w r k = (b, w', p') \<Longrightarrow> p' = p \<and> (\<not> b \<longrightarrow> w' = w)"
  by (auto simp: tryServeCachedResponse_def Cache_Get_def Let_def
      split: option.splits if_splits prod.splits)

lemma forwardRequest_cache_changed:
  assumes "forwardRequest marshal p later w r k isC up = (w', p')" "p' \<noteq> p"
  shows "isC \<and> (\<exists>resp body. up = Upstream resp body \<and> resp_StatusCode resp = 200)"
  using assms
  by (auto simp: forwardRequest_def Let_def split: upstream.splits if_splits)

lemma forwardRequest_relay:
  assumes "forwardRequest marshal p later w r k isC (Upstream resp body) = (w', p')"
  shows "w' = writeResponse w resp body"
  using assms by (auto simp: forwardRequest_def Let_def)

lemma HandleRequest_cases:
  assumes "HandleRequest pf marshal unmarshal p now later w r up = (w', p')"
  shows "(Method r = ''GET'' \<and> fst (tryServeCachedResponse unmarshal p now w r (generateCacheKey pf p r))
            \<and> p' = p) \<or>
         ((Method r \<noteq> ''GET'' \<or>
            \<not> fst (tryServeCachedResponse unmarshal p now w r (generateCacheKey pf p r))) \<and>
          forwardRequest marshal p later w r (generateCacheKey pf p r) (Method r = ''GET'') up = (w', p'))"
proof (cases "Method r = ''GET''")
  case False
  then show ?thesis using assms by (simp add: HandleRequest_def)
next
  case True
  obtain b w1 p1 where t: "tryServeCachedResponse unmarshal p now w r (generateCacheKey pf p r) = (b, w1, p1)"
    by (cases "tryServeCachedResponse unmarshal p now w r (generateCacheKey pf p r)") auto
  then have e: "p1 = p" "\<not> b \<Longrightarrow> w1 = w" using tryServeCachedResponse_proxy [OF t] by auto
  show ?thesis
  proof (cases b)
    case True
    then show ?thesis using assms t e \<open>Method r = ''GET''\<close> by (simp add: HandleRequest_def)
  next
    case False
    then show ?thesis using assms t e \<open>Method r = ''GET''\<close> by (simp add: HandleRequest_def)
  qed
qed

text \<open>
  Claim C7. When the request is forwarded (its method is not GET, or the cache did not
  serve it) and the upstream call fails with a transport error, the handler answers
  with status 502 (Bad Gateway) and leaves the cache exactly as it was.
\<close>

theorem transport_error_bad_gateway:
  assumes "HandleRequest pf marshal unmarshal p now later w r TransportError = (w', p')"
    and "Method r \<noteq> ''GET'' \<or>
         \<not> fst (tryServeCachedResponse unmarshal p now w r (generateCacheKey pf p r))"
  shows "w' = http_Error w ''Failed to reach upstream server'' 502 \<and>
         (w_Status w = None \<longrightarrow> w_Status w' = Some 502) \<and>
         p' = p \<and> items (cache p') = items (cache p)"
proof -
  have "forwardRequest marshal p later w r (generateCacheKey pf p r) (Method r = ''GET'') TransportError
      = (w', p')"
    using HandleRequest_cases [OF assms(1)] assms(2) by auto
  then have "w' = http_Error w ''Failed to reach upstream server'' 502" "p' = p"
    by (auto simp: forwardRequest_def)
  then show ?thesis by (simp add: http_Error_def Write_def WriteHeader_def Let_def)
qed

text \<open>
  Claim C8. When the cache returns an entry for the key of a GET request and the entry
  does not decode, \<open>tryServeCachedResponse\<close> reports a miss without writing anything
  and the handler goes on to forward the request. Handling the request does not delete
  the entry: afterwards the key still has an entry, the same one unless an upstream
  response with status 200 was stored over it, and no other key is touched.
\<close>

theorem corrupt_entry_is_miss:
  assumes "Method r = ''GET''"
    and "Cache_Get (cache p) now (generateCacheKey pf p r) = ((data, True), c)"
    and "unmarshal data = None"
    and "HandleRequest pf marshal unmarshal p now later w r up = (w', p')"
  shows "tryServeCachedResponse unmarshal p now w r (generateCacheKey pf p r) = (False, w, p) \<and>
         forwardRequest marshal p later w r (generateCacheKey pf p r) True up = (w', p') \<and>
         (\<exists>item. items (cache p) (generateCacheKey pf p r) = Some item \<and> Value item = data) \<and>
         items (cache p') (generateCacheKey pf p r) \<noteq> None \<and>
         (items (cache p') (generateCacheKey pf p r) = items (cache p) (generateCacheKey pf p r) \<or>
          (\<exists>resp body v. up = Upstream resp body \<and> resp_StatusCode resp = 200 \<and>
             items (cache p') (generateCacheKey pf p r)
               = Some \<lparr>Value = v, Expiration = later + ttl (cache p)\<rparr>)) \<and>
         (\<forall>k. k \<noteq> generateCacheKey pf p r \<longrightarrow> items (cache p') k = items (cache p) k)"
proof -
  let ?k = "generateCacheKey pf p r"
  have c: "c = cache p" and it: "\<exists>item. items (cache p) ?k = Some item \<and> Value item = data"
    using assms(2) by (auto simp: Cache_Get_def split: option.splits if_splits)
  have t: "tryServeCachedResponse unmarshal p now w r ?k = (False, w, p)"
    using assms(2,3) c by (simp add: tryServeCachedResponse_def)
  then have f: "forwardRequest marshal p later w r ?k True up = (w', p')"
    using assms(1,4) by (simp add: HandleRequest_def)
  have "items (cache p') ?k \<noteq> None \<and>
     (items (cache p') ?k = items (cache p) ?k \<or>
          (\<exists>resp body v. up = Upstream resp body \<and> resp_StatusCode resp = 200 \<and>
             items (cache p') ?k = Some \<lparr>Value = v, Expiration = later + ttl (cache p)\<rparr>)) \<and>
     (\<forall>k. k \<noteq> ?k \<longrightarrow> items (cache p') k = items (cache p) k)"
    using f it
    by (auto simp: forwardRequest_def cacheResponse_def Cache_Set_def Let_def
        split: upstream.splits if_splits option.splits)
  then show ?thesis using t f it by blast
qed

section \<open>Stored and relayed headers\<close>

lemma Values_lookup_filter:
  "Values_lookup (filter (\<lambda>(name, values). P name) h) n = (if P n then Values_lookup h n else [])"
  by (induction h) (auto simp: Values_lookup_def)

lemma foldl_Values_Add:
  "Values_lookup (foldl (\<lambda>m val. Values_Add m k val) m vs) n =
     (if n = k then Values_lookup m k @ vs else Values_lookup m n)"
  by (induction vs arbitrary: m) (simp_all add: Values_lookup_Add)

lemma Values_lookup_Cons:
  "Values_lookup ((k, vs) # h) n = (if n = k then vs else Values_lookup h n)"
  by (simp add: Values_lookup_def)

lemma addHeaders_lookup:
  "distinct (map fst h) \<Longrightarrow>
     Values_lookup
       (foldl (\<lambda>m (name, values). foldl (\<lambda>m val. Values_Add m name val) m values) m h) n
     = Values_lookup m n @ Values_lookup h n"
proof (induction h arbitrary: m)
  case Nil
  then show ?case by (simp add: Values_lookup_def)
next
  case (Cons a h)
  obtain k vs where a: "a = (k, vs)" by (cases a)
  have "Values_lookup h k = []" using Cons.prems a by (simp add: Values_lookup_no_key)
  then show ?case using Cons a
    by (simp add: foldl_Values_Add Values_lookup_Cons)
qed

lemma Values_lookup_Nil: "Values_lookup [] n = []"
  by (simp add: Values_lookup_def)

lemma writeResponse_emptyWriter:
  assumes "distinct (map fst (resp_Header resp))"
  shows "Values_lookup (w_Header (writeResponse emptyWriter resp body)) name =
           (if name = ''X-Cache'' then [''MISS''] else Values_lookup (resp_Header resp) name)"
    and "w_Status (writeResponse emptyWriter resp body) = Some (resp_StatusCode resp)"
    and "w_Body (writeResponse emptyWriter resp body) = body"
  using assms
  by (simp_all add: writeResponse_def addHeaders_def setHeader_def Write_def WriteHeader_def
      emptyWriter_def Let_def Values_lookup_Set addHeaders_lookup Values_lookup_Nil)

lemma tryServeCachedResponse_served_iff:
  "fst (tryServeCachedResponse unmarshal p now w r k) \<longleftrightarrow>
     (\<exists>item. items (cache p) k = Some item \<and> \<not> now > Expiration item \<and>
        unmarshal (Value item) \<noteq> None)"
  by (auto simp: tryServeCachedResponse_def Cache_Get_def Let_def split: option.splits)

lemma writeResponse_fresh:
  assumes "w_Status w = None" "w_Body w = []"
  shows "w_Status (writeResponse w resp body) = Some (resp_StatusCode resp)"
    and "w_Body (writeResponse w resp body) = body"
  using assms
  by (simp_all add: writeResponse_def addHeaders_def setHeader_def Write_def WriteHeader_def Let_def)

text \<open>
  Claim C2. Handling a request changes the cache only when the method is exactly GET
  and the upstream response has status exactly 200. For every other method or status
  the handler stores nothing: the proxy and its cache are left as they were, so a key
  without an entry before the request has none after it. And whenever such a request
  is forwarded (its method is not GET, or the key has no entry that is live and
  decodes) the upstream response is relayed: a fresh writer ends with the upstream
  status code, the upstream body and the upstream headers, \<open>X-Cache\<close> being \<open>MISS\<close>.
\<close>

theorem stored_only_for_GET_200:
  assumes "HandleRequest pf marshal unmarshal p now later w r up = (w', p')"
  shows "(cache p' \<noteq> cache p \<longrightarrow>
            Method r = ''GET'' \<and> (\<exists>resp body. up = Upstream resp body \<and> resp_StatusCode resp = 200)) \<and>
         (\<forall>resp body. up = Upstream resp body \<and> (Method r \<noteq> ''GET'' \<or> resp_StatusCode resp \<noteq> 200) \<longrightarrow>
            p' = p \<and>
            (items (cache p) (generateCacheKey pf p r) = None \<longrightarrow>
               items (cache p') (generateCacheKey pf p r) = None) \<and>
            (Method r \<noteq> ''GET'' \<or>
             \<not> (\<exists>item. items (cache p) (generateCacheKey pf p r) = Some item \<and>
                    \<not> now > Expiration item \<and> unmarshal (Value item) \<noteq> None) \<longrightarrow>
               w' = writeResponse w resp body \<and>
               (w_Status w = None \<and> w_Body w = [] \<longrightarrow>
                  w_Status w' = Some (resp_StatusCode resp) \<and> w_Body w' = body) \<and>
               (w = emptyWriter \<and> distinct (map fst (resp_Header resp)) \<longrightarrow>
                  (\<forall>name. Values_lookup (w_Header w') name =
                     (if name = ''X-Cache'' then [''MISS'']
                      else Values_lookup (resp_Header resp) name)))))"
proof -
  let ?k = "generateCacheKey pf p r"
  note c = HandleRequest_cases [OF assms]
  have 1: "cache p' \<noteq> cache p \<Longrightarrow>
      Method r = ''GET'' \<and> (\<exists>resp body. up = Upstream resp body \<and> resp_StatusCode resp = 200)"
    using c forwardRequest_cache_changed [of marshal p later w r ?k "Method r = ''GET''" up w' p']
    by auto
  have 2: "p' = p \<and>
            (items (cache p) ?k = None \<longrightarrow> items (cache p') ?k = None) \<and>
            (Method r \<noteq> ''GET'' \<or>
             \<not> (\<exists>item. items (cache p) ?k = Some item \<and>
                    \<not> now > Expiration item \<and> unmarshal (Value item) \<noteq> None) \<longrightarrow>
               w' = writeResponse w resp body \<and>
               (w_Status w = None \<and> w_Body w = [] \<longrightarrow>
                  w_Status w' = Some (resp_StatusCode resp) \<and> w_Body w' = body) \<and>
               (w = emptyWriter \<and> distinct (map fst (resp_Header resp)) \<longrightarrow>
                  (\<forall>name. Values_lookup (w_Header w') name =
                     (if name = ''X-Cache'' then [''MISS'']
                      else Values_lookup (resp_Header resp) name))))"
    if u: "up = Upstream resp body" and n: "Method r \<noteq> ''GET'' \<or> resp_StatusCode resp \<noteq> 200"
    for resp body
  proof -
    have eq: "p' = p"
      using c u n forwardRequest_cache_changed [of marshal p later w r ?k "Method r = ''GET''" up w' p']
      by auto
    have rel: "w' = writeResponse w resp body"
      if "Method r \<noteq> ''GET'' \<or>
             \<not> (\<exists>item. items (cache p) ?k = Some item \<and>
                    \<not> now > Expiration item \<and> unmarshal (Value item) \<noteq> None)"
      using c that u forwardRequest_relay
      by (auto simp: tryServeCachedResponse_served_iff)
    show ?thesis
      using eq rel writeResponse_fresh [of w resp body]
        writeResponse_emptyWriter(1) [of resp body]
      by auto
  qed
  show ?thesis using 1 2 by blast
qed

section \<open>The headers to skip\<close>

lemma isUpper_range: "isUpper c \<longleftrightarrow> 65 \<le> (of_char c :: nat) \<and> (of_char c :: nat) \<le> 90"
  by (simp add: isUpper_def less_eq_char_def)

lemma lower_letters: "map of_char ''abcdefghijklmnopqrstuvwxyz'' = [97..<123::nat]"
  by (simp add: upt_rec)

lemma toLower_upper:
  assumes "isUpper c"
  shows "(of_char (toLower c) :: nat) = of_char c + 32"
proof -
  let ?i = "(of_char c :: nat) - 65"
  have i: "?i < 26" "of_char c = 65 + ?i" using assms by (auto simp: isUpper_range)
  have "(of_char (''abcdefghijklmnopqrstuvwxyz'' ! ?i) :: nat)
      = map of_char ''abcdefghijklmnopqrstuvwxyz'' ! ?i"
    using i by (subst nth_map) simp_all
  also have "\<dots> = [97..<123] ! ?i" by (simp only: lower_letters)
  also have "\<dots> = 97 + ?i" by (rule nth_upt) (use i in simp)
  finally show ?thesis using assms i by (simp add: toLower_def isUpper_def)
qed

lemma toLower_other: "\<not> isUpper c \<Longrightarrow> toLower c = c"
  by (auto simp: toLower_def isUpper_def)

lemma toLower_eq_iff: "toLower c = toLower d \<longleftrightarrow> same_letter c d"
proof (cases "isUpper c"; cases "isUpper d")
  assume u: "isUpper c" "isUpper d"
  have "toLower c = toLower d \<longleftrightarrow> (of_char (toLower c) :: nat) = of_char (toLower d)" by simp
  also have "\<dots> \<longleftrightarrow> c = d" using u by (simp add: toLower_upper)
  finally show ?thesis using u by (auto simp: same_letter_def isUpper_range)
next
  assume u: "isUpper c" "\<not> isUpper d"
  have "toLower c = toLower d \<longleftrightarrow> (of_char (toLower c) :: nat) = of_char (toLower d)" by simp
  also have "\<dots> \<longleftrightarrow> (of_char d :: nat) = of_char c + 32"
    using u by (auto simp: toLower_upper toLower_other)
  finally show ?thesis using u by (auto simp: same_letter_def)
next
  assume u: "\<not> isUpper c" "isUpper d"
  have "toLower c = toLower d \<longleftrightarrow> (of_char (toLower c) :: nat) = of_char (toLower d)" by simp
  also have "\<dots> \<longleftrightarrow> (of_char c :: nat) = of_char d + 32"
    using u by (auto simp: toLower_upper toLower_other)
  finally show ?thesis using u by (auto simp: same_letter_def)
next
  assume u: "\<not> isUpper c" "\<not> isUpper d"
  then show ?thesis by (auto simp: same_letter_def toLower_other)
qed

lemma EqualFold_iff: "EqualFold s t \<longleftrightarrow> equal_ignoring_case s t"
proof -
  have "map toLower s = map toLower t \<longleftrightarrow> list_all2 (=) (map toLower s) (map toLower t)"
    by (simp only: list.rel_eq)
  also have "\<dots> \<longleftrightarrow> list_all2 (\<lambda>c d. toLower c = toLower d) s t"
    by (simp add: list.rel_map)
  finally have "map toLower s = map toLower t \<longleftrightarrow> list_all2 (\<lambda>c d. toLower c = toLower d) s t" .
  then show ?thesis by (simp add: EqualFold_def equal_ignoring_case_def toLower_eq_iff)
qed

lemma shouldSkip_iff:
  "shouldSkip name \<longleftrightarrow>
     equal_ignoring_case name ''Date'' \<or> equal_ignoring_case name ''Connection'' \<or>
     equal_ignoring_case name ''Transfer-Encoding'' \<or> equal_ignoring_case name ''Keep-Alive''"
  by (simp add: shouldSkip_def skipCacheHeaders_def EqualFold_iff)

text \<open>
  Claim C5. A GET request that misses the cache and is answered upstream with status
  200: the copy to store, \<open>newCachedResponse\<close>, has the status, the body and the
  upstream headers except those whose name matches \<open>Date\<close>, \<open>Connection\<close>,
  \<open>Transfer-Encoding\<close> or \<open>Keep-Alive\<close> case-insensitively, and its encoding is
  stored under the key. The response written to the caller has every upstream header
  with the values the upstream gave it, the denied ones included, and \<open>X-Cache\<close> set
  to \<open>MISS\<close> (which is \<open>Header.Set\<close>: it stands in place of any \<open>X-Cache\<close> value of
  the upstream).
\<close>

theorem header_filtering_asymmetry:
  assumes "Method r = ''GET''"
    and "\<not> fst (tryServeCachedResponse unmarshal p now emptyWriter r (generateCacheKey pf p r))"
    and "resp_StatusCode resp = 200"
    and "distinct (map fst (resp_Header resp))"
    and "HandleRequest pf marshal unmarshal p now later emptyWriter r (Upstream resp body) = (w', p')"
  shows "(\<forall>name. Values_lookup (Headers (newCachedResponse resp body)) name =
            (if equal_ignoring_case name ''Date'' \<or> equal_ignoring_case name ''Connection'' \<or>
                equal_ignoring_case name ''Transfer-Encoding'' \<or>
                equal_ignoring_case name ''Keep-Alive''
             then []
             else Values_lookup (resp_Header resp) name)) \<and>
         StatusCode (newCachedResponse resp body) = 200 \<and>
         Body (newCachedResponse resp body) = body \<and>
         (\<forall>data. marshal (newCachedResponse resp body) = Some data \<longrightarrow>
            items (cache p') (generateCacheKey pf p r)
              = Some \<lparr>Value = data, Expiration = later + ttl (cache p)\<rparr>) \<and>
         (\<forall>name. Values_lookup (w_Header w') name =
            (if name = ''X-Cache'' then [''MISS''] else Values_lookup (resp_Header resp) name)) \<and>
         w_Status w' = Some 200 \<and> w_Body w' = body"
proof -
  let ?k = "generateCacheKey pf p r"
  have f: "forwardRequest marshal p later emptyWriter r ?k True (Upstream resp body) = (w', p')"
    using HandleRequest_cases [OF assms(5)] assms(1,2) by auto
  then have w: "w' = writeResponse emptyWriter resp body" by (rule forwardRequest_relay)
  have p: "p' = cacheResponse marshal p later ?k resp body"
    using f assms(3) by (auto simp: forwardRequest_def Let_def)
  have h: "Values_lookup (Headers (newCachedResponse resp body)) name =
            (if equal_ignoring_case name ''Date'' \<or> equal_ignoring_case name ''Connection'' \<or>
                equal_ignoring_case name ''Transfer-Encoding'' \<or>
                equal_ignoring_case name ''Keep-Alive''
             then []
             else Values_lookup (resp_Header resp) name)" for name
    by (simp add: newCachedResponse_def Values_lookup_filter shouldSkip_iff)
  have s: "marshal (newCachedResponse resp body) = Some data \<Longrightarrow>
      items (cache p') ?k = Some \<lparr>Value = data, Expiration = later + ttl (cache p)\<rparr>" for data
    using p by (simp add: cacheResponse_def Cache_Set_def)
  show ?thesis
    using h s w assms(3) writeResponse_emptyWriter [OF assms(4)]
    by (simp add: newCachedResponse_def)
qed

section \<open>Examples of the handler\<close>

lemma ttlSeconds_proxy_corrupt: "ttlSeconds_of proxy_corrupt = 300"
  by (simp add: ttlSeconds_of_def proxy_corrupt_def New_Proxy_def New_Cache_def Cache_TTL_def
      Cache_Set_def Seconds_def int64_of_float64_def trunc_def)

lemma key_without_time_parameters:
  assumes "ttlSeconds_of p = 300"
  shows "generateCacheKey ParseFloat_decimal p query_request = ''GET:/api/v1/query:query=up''"
    and "generateCacheKey ParseFloat_decimal p post_request = ''POST:/api/v1/query:query=up''"
    and "generateCacheKey ParseFloat_decimal p one_parameter_request = ''GET:/api/v1/query:query=up&x=1''"
    and "generateCacheKey ParseFloat_decimal p two_parameter_request = ''GET:/api/v1/query:query=up&x=1''"
  using assms
  by (simp_all add: generateCacheKey_def roundTimeParameters_def URL_Query_def
      query_request_def post_request_def one_parameter_request_def two_parameter_request_def
      Values_Add_def roundTimeParameter_def Values_Get_def Values_lookup_def normalizeQueryString_def)

lemma empty_cache_proxy300: "items (cache proxy300) k = None"
  by (simp add: proxy300_def New_Proxy_def New_Cache_def)

lemma miss_proxy300:
  "\<not> fst (tryServeCachedResponse unmarshal proxy300 now w r k)"
  by (simp add: tryServeCachedResponse_def Cache_Get_def empty_cache_proxy300)

lemma proxy_corrupt_entry:
  "items (cache proxy_corrupt) ''GET:/api/v1/query:query=up''
     = Some \<lparr>Value = ''garbage'', Expiration = 300000000000\<rparr>"
  by (simp add: proxy_corrupt_def New_Proxy_def Cache_Set_def New_Cache_def)

theorem stored_only_for_GET_200_witness:
  "Method post_request \<noteq> ''GET'' \<and> resp_StatusCode upstream_unavailable \<noteq> 200 \<and>
   snd (HandleRequest ParseFloat_decimal example_marshal example_unmarshal proxy300 0 1 emptyWriter
       post_request (Upstream upstream_ok ''{}'')) = proxy300 \<and>
   w_Status (fst (HandleRequest ParseFloat_decimal example_marshal example_unmarshal proxy300 0 1
       emptyWriter post_request (Upstream upstream_ok ''{}''))) = Some 200 \<and>
   w_Body (fst (HandleRequest ParseFloat_decimal example_marshal example_unmarshal proxy300 0 1
       emptyWriter post_request (Upstream upstream_ok ''{}''))) = ''{}'' \<and>
   items (cache proxy300) ''POST:/api/v1/query:query=up'' = None \<and>
   items (cache proxy_corrupt) ''GET:/api/v1/query:query=up''
     = Some \<lparr>Value = ''garbage'', Expiration = 300000000000\<rparr> \<and>
   example_unmarshal ''garbage'' = None \<and>
   snd (HandleRequest ParseFloat_decimal example_marshal example_unmarshal proxy_corrupt 5 6
       emptyWriter query_request (Upstream upstream_unavailable ''down'')) = proxy_corrupt \<and>
   w_Status (fst (HandleRequest ParseFloat_decimal example_marshal example_unmarshal proxy_corrupt
       5 6 emptyWriter query_request (Upstream upstream_unavailable ''down''))) = Some 503 \<and>
   w_Body (fst (HandleRequest ParseFloat_decimal example_marshal example_unmarshal proxy_corrupt
       5 6 emptyWriter query_request (Upstream upstream_unavailable ''down''))) = ''down'' \<and>
   Values_lookup (w_Header (fst (HandleRequest ParseFloat_decimal example_marshal example_unmarshal
       proxy_corrupt 5 6 emptyWriter query_request (Upstream upstream_unavailable ''down''))))
     ''Content-Type'' = [''text/plain''] \<and>
   w_Status (fst (HandleRequest ParseFloat_decimal example_marshal example_unmarshal proxy_corrupt
       300000000001 300000000002 emptyWriter query_request
       (Upstream upstream_unavailable ''down''))) = Some 503"
proof -
  let ?post = "HandleRequest ParseFloat_decimal example_marshal example_unmarshal proxy300 0 1
      emptyWriter post_request (Upstream upstream_ok ''{}'')"
  let ?get = "HandleRequest ParseFloat_decimal example_marshal example_unmarshal proxy_corrupt 5 6
      emptyWriter query_request (Upstream upstream_unavailable ''down'')"
  let ?late = "HandleRequest ParseFloat_decimal example_marshal example_unmarshal proxy_corrupt
      300000000001 300000000002 emptyWriter query_request (Upstream upstream_unavailable ''down'')"
  have m: "Method post_request \<noteq> ''GET''" by (simp add: post_request_def)
  have s: "resp_StatusCode upstream_unavailable \<noteq> 200" "resp_StatusCode upstream_unavailable = 503"
    "resp_StatusCode upstream_ok = 200"
    by (simp_all add: upstream_unavailable_def upstream_ok_def)
  have e: "w_Status emptyWriter = None" "w_Body emptyWriter = []" by (simp_all add: emptyWriter_def)
  have d: "distinct (map fst (resp_Header upstream_unavailable))"
    "Values_lookup (resp_Header upstream_unavailable) ''Content-Type'' = [''text/plain'']"
    by (simp_all add: upstream_unavailable_def Values_lookup_def)
  have k: "generateCacheKey ParseFloat_decimal proxy_corrupt query_request
      = ''GET:/api/v1/query:query=up''"
    by (rule key_without_time_parameters [OF ttlSeconds_proxy_corrupt])
  have u: "example_unmarshal ''garbage'' = None" by (simp add: example_unmarshal_def)
  have n5: "\<not> (\<exists>item. items (cache proxy_corrupt)
        (generateCacheKey ParseFloat_decimal proxy_corrupt query_request) = Some item \<and>
      \<not> 5 > Expiration item \<and> example_unmarshal (Value item) \<noteq> None)"
    by (simp add: k proxy_corrupt_entry u)
  have nl: "\<not> (\<exists>item. items (cache proxy_corrupt)
        (generateCacheKey ParseFloat_decimal proxy_corrupt query_request) = Some item \<and>
      \<not> 300000000001 > Expiration item \<and> example_unmarshal (Value item) \<noteq> None)"
    by (simp add: k proxy_corrupt_entry)
  have "?post = (fst ?post, snd ?post)" by simp
  note a = stored_only_for_GET_200 [OF this]
  have a1: "snd ?post = proxy300" using a m by blast
  have a2: "w_Status (fst ?post) = Some 200 \<and> w_Body (fst ?post) = ''{}''"
    using a m e s(3) by auto
  have "?get = (fst ?get, snd ?get)" by simp
  note b = stored_only_for_GET_200 [OF this]
  have b1: "snd ?get = proxy_corrupt" using b s(1) by blast
  have b2: "w_Status (fst ?get) = Some 503 \<and> w_Body (fst ?get) = ''down''"
    using b s(1,2) n5 e by auto
  have b3: "Values_lookup (w_Header (fst ?get)) ''Content-Type'' = [''text/plain'']"
    using b s(1) n5 d by auto
  have "?late = (fst ?late, snd ?late)" by simp
  note c = stored_only_for_GET_200 [OF this]
  have c1: "w_Status (fst ?late) = Some 503" using c s(1,2) nl e by auto
  show ?thesis
    using m s(1) a1 a2 b1 b2 b3 c1 u by (simp add: empty_cache_proxy300 proxy_corrupt_entry)
qed

theorem transport_error_bad_gateway_witness:
  "Method query_request = ''GET'' \<and>
   \<not> fst (tryServeCachedResponse example_unmarshal proxy300 0 emptyWriter query_request
            (generateCacheKey ParseFloat_decimal proxy300 query_request)) \<and>
   w_Status (fst (HandleRequest ParseFloat_decimal example_marshal example_unmarshal proxy300 0 1
       emptyWriter query_request TransportError)) = Some 502 \<and>
   snd (HandleRequest ParseFloat_decimal example_marshal example_unmarshal proxy300 0 1
       emptyWriter query_request TransportError) = proxy300"
proof -
  let ?h = "HandleRequest ParseFloat_decimal example_marshal example_unmarshal proxy300 0 1
       emptyWriter query_request TransportError"
  have e: "?h = (fst ?h, snd ?h)" by simp
  have n: "w_Status emptyWriter = None" by (simp add: emptyWriter_def)
  have u: "Method query_request \<noteq> ''GET'' \<or>
      \<not> fst (tryServeCachedResponse example_unmarshal proxy300 0 emptyWriter query_request
            (generateCacheKey ParseFloat_decimal proxy300 query_request))"
    by (simp add: miss_proxy300)
  note a = transport_error_bad_gateway [OF e u]
  have "w_Status (fst ?h) = Some 502" using a n by blast
  moreover have "snd ?h = proxy300" using a by blast
  ultimately show ?thesis by (simp add: miss_proxy300) (simp add: query_request_def)
qed

lemma Cache_Get_proxy_corrupt:
  "Cache_Get (cache proxy_corrupt) 5 ''GET:/api/v1/query:query=up''
     = ((''garbage'', True), cache proxy_corrupt)"
  by (simp add: Cache_Get_def proxy_corrupt_def New_Proxy_def Cache_Set_def New_Cache_def)

theorem corrupt_entry_is_miss_witness:
  "Cache_Get (cache proxy_corrupt) 5 (generateCacheKey ParseFloat_decimal proxy_corrupt query_request)
     = ((''garbage'', True), cache proxy_corrupt) \<and>
   example_unmarshal ''garbage'' = None \<and>
   HandleRequest ParseFloat_decimal example_marshal example_unmarshal proxy_corrupt 5 6
       emptyWriter query_request (Upstream upstream_unavailable ''down'')
     = forwardRequest example_marshal proxy_corrupt 6 emptyWriter query_request
         ''GET:/api/v1/query:query=up'' True (Upstream upstream_unavailable ''down'') \<and>
   items (cache (snd (HandleRequest ParseFloat_decimal example_marshal example_unmarshal
       proxy_corrupt 5 6 emptyWriter query_request (Upstream upstream_unavailable ''down''))))
     ''GET:/api/v1/query:query=up'' \<noteq> None"
proof -
  let ?h = "HandleRequest ParseFloat_decimal example_marshal example_unmarshal proxy_corrupt 5 6
       emptyWriter query_request (Upstream upstream_unavailable ''down'')"
  have k: "generateCacheKey ParseFloat_decimal proxy_corrupt query_request = ''GET:/api/v1/query:query=up''"
    by (rule key_without_time_parameters [OF ttlSeconds_proxy_corrupt])
  have g: "Cache_Get (cache proxy_corrupt) 5 (generateCacheKey ParseFloat_decimal proxy_corrupt query_request)
     = ((''garbage'', True), cache proxy_corrupt)"
    by (simp add: k Cache_Get_proxy_corrupt)
  have u: "example_unmarshal ''garbage'' = None" by (simp add: example_unmarshal_def)
  have m: "Method query_request = ''GET''" by (simp add: query_request_def)
  have e: "?h = (fst ?h, snd ?h)" by simp
  show ?thesis
    using corrupt_entry_is_miss [OF m g u e] g u by (simp add: k)
qed

lemma upstream_mixed_case_lookup:
  "Values_lookup (resp_Header upstream_mixed_case) ''date'' = [''Mon'']"
  "Values_lookup (resp_Header upstream_mixed_case) ''KEEP-ALIVE'' = [''timeout=5'']"
  "Values_lookup (resp_Header upstream_mixed_case) ''connection'' = [''close'']"
  "Values_lookup (resp_Header upstream_mixed_case) ''Transfer-encoding'' = [''chunked'']"
  "Values_lookup (resp_Header upstream_mixed_case) ''Content-Type'' = [''application/json'']"
  "distinct (map fst (resp_Header upstream_mixed_case))"
  "resp_StatusCode upstream_mixed_case = 200"
  by (simp_all add: upstream_mixed_case_def Values_lookup_def)

lemma equal_ignoring_case_examples:
  "equal_ignoring_case ''date'' ''Date''"
  "equal_ignoring_case ''KEEP-ALIVE'' ''Keep-Alive''"
  "equal_ignoring_case ''connection'' ''Connection''"
  "equal_ignoring_case ''Transfer-encoding'' ''Transfer-Encoding''"
  "\<not> equal_ignoring_case ''Content-Type'' ''Date''"
  "\<not> equal_ignoring_case ''Content-Type'' ''Connection''"
  "\<not> equal_ignoring_case ''Content-Type'' ''Transfer-Encoding''"
  "\<not> equal_ignoring_case ''Content-Type'' ''Keep-Alive''"
  by (simp_all add: equal_ignoring_case_def same_letter_def isUpper_def)

theorem header_filtering_asymmetry_witness:
  "Values_lookup (resp_Header upstream_mixed_case) ''date'' = [''Mon''] \<and>
   Values_lookup (Headers (newCachedResponse upstream_mixed_case ''{}'')) ''date'' = [] \<and>
   Values_lookup (Headers (newCachedResponse upstream_mixed_case ''{}'')) ''KEEP-ALIVE'' = [] \<and>
   Values_lookup (Headers (newCachedResponse upstream_mixed_case ''{}'')) ''connection'' = [] \<and>
   Values_lookup (Headers (newCachedResponse upstream_mixed_case ''{}'')) ''Transfer-encoding'' = [] \<and>
   Values_lookup (Headers (newCachedResponse upstream_mixed_case ''{}'')) ''Content-Type''
     = [''application/json''] \<and>
   items (cache (snd (HandleRequest ParseFloat_decimal example_marshal example_unmarshal proxy300
       0 1 emptyWriter query_request (Upstream upstream_mixed_case ''{}''))))
     ''GET:/api/v1/query:query=up'' = Some \<lparr>Value = ''{{}'', Expiration = 300000000001\<rparr> \<and>
   Values_lookup (w_Header (fst (HandleRequest ParseFloat_decimal example_marshal example_unmarshal
       proxy300 0 1 emptyWriter query_request (Upstream upstream_mixed_case ''{}'')))) ''date''
     = [''Mon''] \<and>
   Values_lookup (w_Header (fst (HandleRequest ParseFloat_decimal example_marshal example_unmarshal
       proxy300 0 1 emptyWriter query_request (Upstream upstream_mixed_case ''{}'')))) ''KEEP-ALIVE''
     = [''timeout=5''] \<and>
   Values_lookup (w_Header (fst (HandleRequest ParseFloat_decimal example_marshal example_unmarshal
       proxy300 0 1 emptyWriter query_request (Upstream upstream_mixed_case ''{}'')))) ''X-Cache''
     = [''MISS'']"
proof -
  let ?h = "HandleRequest ParseFloat_decimal example_marshal example_unmarshal proxy300 0 1
       emptyWriter query_request (Upstream upstream_mixed_case ''{}'')"
  have k: "generateCacheKey ParseFloat_decimal proxy300 query_request = ''GET:/api/v1/query:query=up''"
    by (rule key_without_time_parameters [OF ttlSeconds_proxy300])
  have m: "Method query_request = ''GET''" by (simp add: query_request_def)
  have e: "?h = (fst ?h, snd ?h)" by simp
  have j: "example_marshal (newCachedResponse upstream_mixed_case ''{}'') = Some ''{{}''"
    by (simp add: example_marshal_def newCachedResponse_def)
  have t: "ttl (cache proxy300) = 300000000000"
    by (simp add: proxy300_def New_Proxy_def New_Cache_def)
  note a = header_filtering_asymmetry [OF m miss_proxy300 upstream_mixed_case_lookup(7)
      upstream_mixed_case_lookup(6) e]
  have a1: "Values_lookup (Headers (newCachedResponse upstream_mixed_case ''{}'')) ''date'' = []"
    "Values_lookup (Headers (newCachedResponse upstream_mixed_case ''{}'')) ''KEEP-ALIVE'' = []"
    "Values_lookup (Headers (newCachedResponse upstream_mixed_case ''{}'')) ''connection'' = []"
    "Values_lookup (Headers (newCachedResponse upstream_mixed_case ''{}'')) ''Transfer-encoding'' = []"
    "Values_lookup (Headers (newCachedResponse upstream_mixed_case ''{}'')) ''Content-Type''
       = [''application/json'']"
    using a equal_ignoring_case_examples upstream_mixed_case_lookup by simp_all
  have a2: "items (cache (snd ?h)) ''GET:/api/v1/query:query=up''
      = Some \<lparr>Value = ''{{}'', Expiration = 300000000001\<rparr>"
    using a j t by (simp add: k)
  have a3: "Values_lookup (w_Header (fst ?h)) ''date'' = [''Mon'']"
    "Values_lookup (w_Header (fst ?h)) ''KEEP-ALIVE'' = [''timeout=5'']"
    "Values_lookup (w_Header (fst ?h)) ''X-Cache'' = [''MISS'']"
    using a upstream_mixed_case_lookup by simp_all
  show ?thesis using upstream_mixed_case_lookup(1) a1 a2 a3 by simp
qed

text \<open>
  Claim C9 does not hold of the code. The key is the plain concatenation of method,
  path and \<open>name=value\<close> pairs with the separators \<open>:\<close>, \<open>&\<close> and \<open>=\<close>, and none of
  them is escaped: the request with the one parameter \<open>query\<close> of value \<open>up&x=1\<close>
  and the request with the two parameters \<open>query=up\<close> and \<open>x=1\<close> have different
  parameter sets after bucketing and the same key.
\<close>

theorem key_collision:
  "generateCacheKey ParseFloat_decimal proxy300 one_parameter_request
     = ''GET:/api/v1/query:query=up&x=1'' \<and>
   generateCacheKey ParseFloat_decimal proxy300 two_parameter_request
     = ''GET:/api/v1/query:query=up&x=1'' \<and>
   roundTimeParameters ParseFloat_decimal proxy300 one_parameter_request
     = [(''query'', [''up&x=1''])] \<and>
   roundTimeParameters ParseFloat_decimal proxy300 two_parameter_request
     = [(''query'', [''up'']), (''x'', [''1''])] \<and>
   Method one_parameter_request = Method two_parameter_request \<and>
   Path one_parameter_request = Path two_parameter_request \<and>
   set (key_pairs (roundTimeParameters ParseFloat_decimal proxy300 one_parameter_request))
     \<noteq> set (key_pairs (roundTimeParameters ParseFloat_decimal proxy300 two_parameter_request))"
proof -
  have a: "roundTimeParameters ParseFloat_decimal proxy300 one_parameter_request
     = [(''query'', [''up&x=1''])]"
    "roundTimeParameters ParseFloat_decimal proxy300 two_parameter_request
     = [(''query'', [''up'']), (''x'', [''1''])]"
    by (simp_all add: roundTimeParameters_def ttlSeconds_proxy300 URL_Query_def
      one_parameter_request_def two_parameter_request_def Values_Add_def roundTimeParameter_def
      Values_Get_def Values_lookup_def)
  have b: "key_pairs [(''query'', [''up&x=1''])] = [(''query'', ''up&x=1'')]"
    "key_pairs [(''query'', [''up'']), (''x'', [''1''])] = [(''query'', ''up''), (''x'', ''1'')]"
    by (simp_all add: key_pairs_def Values_lookup_def)
  show ?thesis
    by (simp add: key_without_time_parameters [OF ttlSeconds_proxy300] a b)
       (simp add: one_parameter_request_def two_parameter_request_def)
qed

end
